theory Spec2Isabelle
  imports Complex_Main
begin

section \<open>Text: Python strings as lists of code points\<close>

text \<open>
  A Python \<open>str\<close> is a sequence of Unicode code points.  The source tests characters
  against U+4E00..U+9FFF and compares a paragraph with U+25C7, so a character is a
  natural number (its code point) and a string is a list of them.  \<open>str\<close> turns an
  ASCII literal of the source into such a list.
\<close>

type_synonym pychar = nat
type_synonym pystr = "pychar list"

definition str :: "string \<Rightarrow> pystr" where
  "str s = map of_char s"

definition NL :: pychar where
  "NL = 10"

text \<open>The glyph of line 105, U+25C7 (WHITE DIAMOND), as a one-character string.\<close>

definition PLACEHOLDER :: pystr where
  "PLACEHOLDER = [9671]"

text \<open>The literal returned by lines 112 and 125 and written by line 203: the single
  character U+00A0 (NO-BREAK SPACE).\<close>

definition NBSP :: pystr where
  "NBSP = [160]"

text \<open>
  \<open>str.strip()\<close> without an argument removes leading and trailing whitespace, where
  whitespace is what \<open>str.isspace\<close> accepts: the code points below (CPython's
  whitespace table).
\<close>

definition isspace :: "pychar \<Rightarrow> bool" where
  "isspace c = ((9 \<le> c \<and> c \<le> 13) \<or> (28 \<le> c \<and> c \<le> 32) \<or> c = 133 \<or> c = 160
     \<or> c = 5760 \<or> (8192 \<le> c \<and> c \<le> 8202) \<or> c = 8232 \<or> c = 8233 \<or> c = 8239
     \<or> c = 8287 \<or> c = 12288)"

definition strip :: "pystr \<Rightarrow> pystr" where
  "strip s = rev (dropWhile isspace (rev (dropWhile isspace s)))"

text \<open>
  \<open>re.split(r'\n+', text)\<close>: every maximal run of newlines is one separator, and the
  pieces between separators are returned, the (possibly empty) piece before a leading
  run and after a trailing run included.  A text with no newline is returned whole,
  the empty text as \<open>['']\<close>.
\<close>

function re_split_newlines :: "pystr \<Rightarrow> pystr list" where
  "re_split_newlines [] = [[]]"
| "re_split_newlines (c # cs) =
     (if c = NL then [] # re_split_newlines (dropWhile (\<lambda>x. x = NL) cs)
      else (case re_split_newlines cs of
              [] \<Rightarrow> [[c]]
            | p # ps \<Rightarrow> (c # p) # ps))"
  by pat_completeness auto
termination
  by (relation "measure length") (auto simp: less_Suc_eq_le length_dropWhile_le)

text \<open>Line 105: the trimmed pieces that are neither empty nor the placeholder.\<close>

definition segment_text_to_paragraphs :: "pystr \<Rightarrow> pystr list" where
  "segment_text_to_paragraphs text =
     map strip (filter (\<lambda>para. strip para \<noteq> [] \<and> strip para \<noteq> PLACEHOLDER)
                  (re_split_newlines text))"

text \<open>The number of maximal runs of newline characters in a text: the number of
  matches of \<open>\n+\<close>.\<close>

function newline_runs :: "pystr \<Rightarrow> nat" where
  "newline_runs [] = 0"
| "newline_runs (c # cs) =
     (if c = NL then Suc (newline_runs (dropWhile (\<lambda>x. x = NL) cs))
      else newline_runs cs)"
  by pat_completeness auto
termination
  by (relation "measure length") (auto simp: less_Suc_eq_le length_dropWhile_le)

definition placeholder_only :: "pystr \<Rightarrow> bool" where
  "placeholder_only para = (strip para = PLACEHOLDER)"

definition blank :: "pystr \<Rightarrow> bool" where
  "blank para = (strip para = [])"

section \<open>What the interpreter decides\<close>

text \<open>
  Four built-ins of the source read the interpreter's Unicode database, which is not
  part of the program: the class \<open>\d\<close> and \<open>int\<close> (the decimal digits and their
  values), \<open>str.isalnum\<close>, \<open>str.lower\<close> and \<open>str.title\<close>.  They are parameters
  of the model.  The decimal table is consulted only for code points that are neither
  ASCII nor whitespace, where no decimal digit lives; ASCII digits have their usual
  values.  The interpreter also bounds the number of digits that \<open>int\<close> converts
  (\<open>sys.get_int_max_str_digits()\<close>, 4300 unless configured); 0 stands for no bound.
\<close>

record interpreter =
  decimal_value :: "pychar \<Rightarrow> nat option"
  isalnum :: "pychar \<Rightarrow> bool"
  lower :: "pystr \<Rightarrow> pystr"
  title :: "pystr \<Rightarrow> pystr"
  int_max_str_digits :: nat

definition decimal :: "interpreter \<Rightarrow> pychar \<Rightarrow> nat option" where
  "decimal U c =
     (if c < 128 then (if 48 \<le> c \<and> c \<le> 57 then Some (c - 48) else None)
      else if isspace c then None
      else decimal_value U c)"

definition isdecimal :: "interpreter \<Rightarrow> pychar \<Rightarrow> bool" where
  "isdecimal U c = (decimal U c \<noteq> None)"

text \<open>
  \<open>int(s)\<close> for a string, base ten: surrounding whitespace is dropped (the separators
  U+001C..U+001F are not whitespace here), one sign is allowed, and the rest must be
  decimal digits, with single underscores allowed between two digits.  When the
  interpreter bounds the digits and the string has more of them (underscores, sign
  and whitespace not counted, leading zeros counted), the conversion is refused.
  \<open>None\<close> is the \<open>ValueError\<close>, which both failures raise.
\<close>

definition int_space :: "pychar \<Rightarrow> bool" where
  "int_space c = (isspace c \<and> \<not> (28 \<le> c \<and> c \<le> 31))"

definition int_strip :: "pystr \<Rightarrow> pystr" where
  "int_strip s = rev (dropWhile int_space (rev (dropWhile int_space s)))"

fun int_digits :: "interpreter \<Rightarrow> nat \<Rightarrow> pystr \<Rightarrow> nat option" where
  "int_digits U acc [] = Some acc"
| "int_digits U acc [c] =
     (case decimal U c of None \<Rightarrow> None | Some d \<Rightarrow> Some (10 * acc + d))"
| "int_digits U acc (c # c' # cs) =
     (case decimal U c of
        None \<Rightarrow> None
      | Some d \<Rightarrow>
          if c' = 95 then (if cs = [] then None else int_digits U (10 * acc + d) cs)
          else int_digits U (10 * acc + d) (c' # cs))"

definition exceeds_digit_limit :: "interpreter \<Rightarrow> pystr \<Rightarrow> bool" where
  "exceeds_digit_limit U body =
     (0 < int_max_str_digits U
      \<and> int_max_str_digits U < length (filter (\<lambda>c. c \<noteq> 95) body))"

definition int_body :: "interpreter \<Rightarrow> pystr \<Rightarrow> nat option" where
  "int_body U body =
     (if body = [] \<or> exceeds_digit_limit U body then None else int_digits U 0 body)"

definition py_int :: "interpreter \<Rightarrow> pystr \<Rightarrow> int option" where
  "py_int U s =
     (case int_strip s of
        [] \<Rightarrow> None
      | c # cs \<Rightarrow>
          if c = 45 then map_option (\<lambda>n. - int n) (int_body U cs)
          else if c = 43 then map_option int (int_body U cs)
          else map_option int (int_body U (c # cs)))"

section \<open>Page file names\<close>

text \<open>\<open>os.path.basename\<close>: what follows the last slash.\<close>

definition basename :: "pystr \<Rightarrow> pystr" where
  "basename p = rev (takeWhile (\<lambda>c. c \<noteq> 47) (rev p))"

text \<open>
  The pattern of line 63, matched by \<open>re.match\<close> (anchored at the start only) under
  \<open>re.IGNORECASE\<close>.  A letter of the pattern matches itself and its ASCII capital
  (none of the pattern's letters has another case variant in Unicode); \<open>_\<close> and
  \<open>.\<close> match themselves.  \<open>\d+\<close> is greedy: it takes the longest run of decimal
  digits, and since the pattern continues with \<open>_\<close> or \<open>.\<close>, which are no digits,
  no shorter run can lead to a match.
\<close>

definition ci_char :: "char \<Rightarrow> pychar \<Rightarrow> bool" where
  "ci_char p c =
     (c = of_char p \<or> (97 \<le> (of_char p :: nat) \<and> (of_char p :: nat) \<le> 122 \<and> c + 32 = of_char p))"

fun literal :: "string \<Rightarrow> pystr \<Rightarrow> pystr option" where
  "literal [] s = Some s"
| "literal (p # ps) [] = None"
| "literal (p # ps) (c # cs) = (if ci_char p c then literal ps cs else None)"

definition digits1 :: "interpreter \<Rightarrow> pystr \<Rightarrow> (pystr \<times> pystr) option" where
  "digits1 U s =
     (if takeWhile (isdecimal U) s = [] then None
      else Some (takeWhile (isdecimal U) s, dropWhile (isdecimal U) s))"

definition match_page_pattern :: "interpreter \<Rightarrow> pystr \<Rightarrow> (pystr \<times> pystr \<times> pystr) option" where
  "match_page_pattern U s =
     Option.bind (literal ''volume'' s) (\<lambda>r1.
     Option.bind (digits1 U r1) (\<lambda>(g1, r2).
     Option.bind (literal ''_chapter'' r2) (\<lambda>r3.
     Option.bind (digits1 U r3) (\<lambda>(g2, r4).
     Option.bind (literal ''_'' r4) (\<lambda>r5.
     Option.bind (digits1 U r5) (\<lambda>(g3, r6).
     Option.bind (literal ''.html'' r6) (\<lambda>r7.
       Some (g1, g2, g3))))))))"

text \<open>
  \<open>parse_filename\<close>, lines 62 to 69.  \<open>None\<close> is the function's \<open>return None\<close>,
  reached when the name does not match and when \<open>int\<close> raises \<open>ValueError\<close>.
\<close>

definition parse_filename :: "interpreter \<Rightarrow> pystr \<Rightarrow> (pystr \<times> pystr \<times> int \<times> pystr) option" where
  "parse_filename U filename =
     (case match_page_pattern U (basename filename) of
        Some (volume, chapter, page_str) \<Rightarrow>
          (case py_int U page_str of
             Some page_int \<Rightarrow> Some (volume, chapter, page_int, page_str)
           | None \<Rightarrow> None)
      | None \<Rightarrow> None)"

section \<open>Grouping pages into chapters\<close>

text \<open>\<open>os.path.join\<close> of two components (POSIX).\<close>

definition path_join :: "pystr \<Rightarrow> pystr \<Rightarrow> pystr" where
  "path_join a b =
     (if b \<noteq> [] \<and> hd b = 47 then b
      else if a = [] \<or> last a = 47 then a @ b
      else a @ [47] @ b)"

definition endswith :: "pystr \<Rightarrow> pystr \<Rightarrow> bool" where
  "endswith s suffix = (length suffix \<le> length s \<and> drop (length s - length suffix) s = suffix)"

text \<open>
  \<open>glob.glob(os.path.join(source_dir, '*.html'))\<close>, given the names found in the
  directory: the names that end in \<open>.html\<close> and do not start with a dot, each
  joined to the directory, in the order of the listing.
\<close>

definition glob_html :: "pystr \<Rightarrow> pystr list \<Rightarrow> pystr list" where
  "glob_html source_dir names =
     map (path_join source_dir)
       (filter (\<lambda>n. endswith n (str ''.html'') \<and> hd n \<noteq> 46) names)"

record page =
  path :: pystr
  page_num :: int

text \<open>
  \<open>chapters_data\<close> is a \<open>defaultdict(list)\<close>; a dictionary keeps its keys in the
  order of their first insertion, so it is an association list here.
\<close>

type_synonym chapters = "(pystr \<times> page list) list"

fun append_page :: "pystr \<Rightarrow> page \<Rightarrow> chapters \<Rightarrow> chapters" where
  "append_page k v [] = [(k, [v])]"
| "append_page k v ((k', vs) # rest) =
     (if k' = k then (k', vs @ [v]) # rest else (k', vs) # append_page k v rest)"

fun collect_pages :: "interpreter \<Rightarrow> pystr list \<Rightarrow> chapters \<Rightarrow> chapters" where
  "collect_pages U [] chapters_data = chapters_data"
| "collect_pages U (filepath # rest) chapters_data =
     (case parse_filename U filepath of
        Some (volume, chapter, page_int, page_str) \<Rightarrow>
          collect_pages U rest
            (append_page (str ''volume'' @ volume @ str ''_chapter'' @ chapter)
               \<lparr>path = filepath, page_num = page_int\<rparr> chapters_data)
      | None \<Rightarrow> collect_pages U rest chapters_data)"

text \<open>\<open>group_html_files\<close>, lines 71 to 85, from the result of the \<open>glob\<close> call on.
  \<open>list.sort\<close> is stable, as \<open>sort_key\<close> is.\<close>

definition group_html_files :: "interpreter \<Rightarrow> pystr list \<Rightarrow> chapters" where
  "group_html_files U html_files =
     map (\<lambda>(chapter_key, pages). (chapter_key, sort_key page_num pages))
       (collect_pages U html_files [])"

section \<open>Collaborators, the world and its trace\<close>

text \<open>
  What the program calls but does not contain is a parameter: the translation
  provider (a state machine: a call may answer differently each time), the tokenizer,
  the phonetic transcriber, the HTML parser, and whether a write or a removal
  succeeds.  A provider call either returns a value (\<open>None\<close> is Python's \<open>None\<close>) or
  raises an exception with a message.  The tokenizer stands for the calls of
  \<open>process_chapter\<close> that can raise past it.
\<close>

datatype response = Returned "pystr option" | Raised pystr

datatype exc = Exception | KeyboardInterrupt

datatype write_outcome = Written | WriteFailed "pystr option"

datatype translator = GoogleTranslator

datatype event =
    Translate pystr
  | Sleep rat
  | ReadPage pystr
  | Tokenize pystr
  | Transcribe pystr
  | WriteFile pystr
  | RemoveFile pystr

record 't env =
  interp :: interpreter
  DEEP_TRANSLATOR_AVAILABLE :: bool
  translator_constructs :: bool
  translate :: "'t \<Rightarrow> pystr \<Rightarrow> response \<times> 't"
  jieba_cut :: "pystr \<Rightarrow> exc + pystr list"
  pinyin :: "pystr \<Rightarrow> pystr list list option"
  content_paragraphs :: "pystr \<Rightarrow> pystr list option"
  open_write :: "pystr \<Rightarrow> pystr \<Rightarrow> write_outcome"
  remove_succeeds :: "pystr \<Rightarrow> bool"

text \<open>
  The world: the files (path to content), the provider's state, and the trace of the
  calls made to the outside, oldest first.
\<close>

record 't world =
  files :: "pystr \<rightharpoonup> pystr"
  provider :: 't
  trace :: "event list"

definition emit :: "event \<Rightarrow> 't world \<Rightarrow> 't world" where
  "emit e w = w\<lparr>trace := trace w @ [e]\<rparr>"

subsection \<open>Configuration, lines 23 to 33\<close>

definition SOURCE_DIRECTORY :: pystr where
  "SOURCE_DIRECTORY = str ''data''"

definition OUTPUT_DIRECTORY :: pystr where
  "OUTPUT_DIRECTORY = str ''output''"

definition DELETE_SOURCE_FILES_AFTER_PROCESSING :: bool where
  "DELETE_SOURCE_FILES_AFTER_PROCESSING = True"

definition ONLINE_TRANSLATION_MAX_RETRIES :: nat where
  "ONLINE_TRANSLATION_MAX_RETRIES = 2"

text \<open>The delay is the float \<open>0.3\<close> in the source; durations are exact rationals here.\<close>

definition ONLINE_TRANSLATION_BASE_DELAY :: rat where
  "ONLINE_TRANSLATION_BASE_DELAY = 3 / 10"

definition ONLINE_TRANSLATION_RATE_LIMIT_MULTIPLIER :: nat where
  "ONLINE_TRANSLATION_RATE_LIMIT_MULTIPLIER = 4"

section \<open>Phonetic annotation and the gloss resolver\<close>

fun str_join :: "pystr \<Rightarrow> pystr list \<Rightarrow> pystr" where
  "str_join sep [] = []"
| "str_join sep [x] = x"
| "str_join sep (x # y # ys) = x @ sep @ str_join sep (y # ys)"

text \<open>\<open>get_pinyin_for_segment\<close>, lines 107 to 115.\<close>

definition get_pinyin_for_segment :: "'t env \<Rightarrow> pystr \<Rightarrow> pystr" where
  "get_pinyin_for_segment E segment =
     (case pinyin E segment of
        None \<Rightarrow> str ''N/A''
      | Some pinyin_list \<Rightarrow>
          (let result = str_join (str '' '') (map hd (filter (\<lambda>item. item \<noteq> []) pinyin_list))
           in if result \<noteq> [] then result else NBSP))"

text \<open>\<open>sub in s\<close> for strings.\<close>

fun contains :: "pystr \<Rightarrow> pystr \<Rightarrow> bool" where
  "contains sub [] = (sub = [])"
| "contains sub (c # cs) = (take (length sub) (c # cs) = sub \<or> contains sub cs)"

definition is_cjk :: "pychar \<Rightarrow> bool" where
  "is_cjk c = (19968 \<le> c \<and> c \<le> 40959)"

text \<open>\<open>s.isalnum()\<close>: every character is alphanumeric and there is at least one.\<close>

definition str_isalnum :: "interpreter \<Rightarrow> pystr \<Rightarrow> bool" where
  "str_isalnum U s = (s \<noteq> [] \<and> list_all (isalnum U) s)"

text \<open>Line 166: the error text, lowered, names a rate limit.\<close>

definition rate_limited :: "interpreter \<Rightarrow> pystr \<Rightarrow> bool" where
  "rate_limited U e =
     (contains (str ''429'') (lower U e) \<or> contains (str ''too many requests'') (lower U e)
      \<or> contains (str ''rate limit'') (lower U e))"

definition sleep :: "rat \<Rightarrow> 't world \<Rightarrow> 't world" where
  "sleep d w = emit (Sleep d) w"

text \<open>
  The loop of lines 137 to 177 from attempt number \<open>attempt\<close> on.  Each turn calls the
  provider once; the provider's exceptions are caught by \<open>except Exception\<close> and never
  leave the function.
\<close>

function translation_attempts :: "'t env \<Rightarrow> pystr \<Rightarrow> nat \<Rightarrow> 't world \<Rightarrow> pystr \<times> 't world" where
  "translation_attempts E segment attempt w =
     (if ONLINE_TRANSLATION_MAX_RETRIES + 1 \<le> attempt
      then (str ''Translation Failed (Loop End)'', w)
      else
        (case translate E (provider w) segment of (r, p') \<Rightarrow>
           (let w1 = emit (Translate segment) (w\<lparr>provider := p'\<rparr>) in
            case r of
              Returned translated_text \<Rightarrow>
                (if translated_text \<noteq> None \<and> translated_text \<noteq> Some []
                 then (the translated_text, w1)
                 else if attempt < ONLINE_TRANSLATION_MAX_RETRIES
                 then translation_attempts E segment (attempt + 1)
                        (sleep (ONLINE_TRANSLATION_BASE_DELAY * of_nat (attempt + 1)) w1)
                 else (str ''Translation Failed (Empty)'', w1))
            | Raised e \<Rightarrow>
                (if rate_limited (interp E) e
                 then (if attempt < ONLINE_TRANSLATION_MAX_RETRIES
                       then translation_attempts E segment (attempt + 1)
                              (sleep (ONLINE_TRANSLATION_BASE_DELAY
                                        * of_nat ONLINE_TRANSLATION_RATE_LIMIT_MULTIPLIER
                                        * of_nat (attempt + 1)) w1)
                       else (str ''Translation Failed (Rate Limit)'', w1))
                 else if attempt < ONLINE_TRANSLATION_MAX_RETRIES
                 then translation_attempts E segment (attempt + 1)
                        (sleep (ONLINE_TRANSLATION_BASE_DELAY * of_nat (attempt + 1)) w1)
                 else (str ''Translation Failed (Max Retries)'', w1)))))"
  by pat_completeness auto
termination
  by (relation "measure (\<lambda>(E, segment, attempt, w). ONLINE_TRANSLATION_MAX_RETRIES + 1 - attempt)") auto

declare translation_attempts.simps [simp del]

text \<open>\<open>get_online_translation\<close>, lines 118 to 177.\<close>

definition get_online_translation :: "'t env \<Rightarrow> pystr \<Rightarrow> translator option \<Rightarrow> 't world \<Rightarrow> pystr \<times> 't world" where
  "get_online_translation E segment online_translator_obj w =
     (if \<not> (DEEP_TRANSLATOR_AVAILABLE E \<and> online_translator_obj \<noteq> None)
      then (str ''Translator N/A'', w)
      else if segment = [] \<or> strip segment = [] then (NBSP, w)
      else if length (strip segment) \<le> 1 \<and> \<not> str_isalnum (interp E) (strip segment)
      then (segment, w)
      else if \<not> list_ex is_cjk (strip segment) then (segment, w)
      else translation_attempts E segment 0 w)"

section \<open>The annotation stream and the renderer\<close>

text \<open>
  The stream holds dictionaries with the keys \<open>zh\<close>, \<open>py\<close> and \<open>trans\<close>, and the
  string \<open>"PARAGRAPH_BREAK"\<close> between paragraphs.
\<close>

datatype item = PARAGRAPH_BREAK | Annotation (zh: pystr) (py: pystr) (trans_text: pystr)

definition html_head :: "pystr \<Rightarrow> pystr list" where
  "html_head chapter_title =
     [str ''<!DOCTYPE html><html lang='en'><head><meta charset='UTF-8'>'',
      str ''<title>'' @ chapter_title @ str ''</title><style>'',
      str ''body { font-family: Arial, 'Microsoft YaHei', 'SimSun', sans-serif; margin: 20px; line-height: 1.7; background-color: #f8f9fa; color: #212529; }'',
      str ''h1 { text-align: center; color: #343a40; margin-bottom: 30px; font-weight: 300; }'',
      str ''.segment-block { margin-bottom: 20px; padding: 12px; background-color: #ffffff; border: 1px solid #dee2e6; border-radius: .25rem; box-shadow: 0 1px 3px rgba(0,0,0,.05); overflow-x: auto; }'',
      str ''.chapter-table { width: 100%; border-collapse: collapse; table-layout: auto; }'',
      str ''.chapter-table td { padding: 8px 10px; text-align: left; vertical-align: top; word-break: break-word; }'',
      str ''.chinese-row td { font-size: 1.4em; color: #2c3e50; padding-bottom: 5px; }'',
      str ''.pinyin-row td { color: #2980b9; font-size: 0.95em; padding-bottom: 5px; border-bottom: 1px dashed #e0e0e0; }'',
      str ''.translation-row td { color: #495057; font-style: italic; font-size: 0.9em; line-height: 1.4; }'',
      str ''td:empty::after { content: '' @ [39, 92] @ str ''00a0'; }'',
      str ''</style></head><body>'',
      str ''<h1>'' @ chapter_title @ str ''</h1>'']"

definition html_foot :: pystr where
  "html_foot = str ''</body></html>''"

text \<open>One cell, as lines 203, 205 and 207 write it.\<close>

definition cell :: "pystr \<Rightarrow> pystr" where
  "cell seg = str ''<td>'' @ (if strip seg \<noteq> [] then seg else NBSP) @ str ''</td>''"

text \<open>The parts appended for one paragraph, lines 201 to 208 (and again 216 to 223).\<close>

definition paragraph_block :: "pystr list \<Rightarrow> pystr list \<Rightarrow> pystr list \<Rightarrow> pystr list" where
  "paragraph_block current_segments_zh current_segments_py current_segments_trans =
     [str ''<div class='segment-block'><table class='chapter-table'>'',
      str ''<tr class='chinese-row'>'']
     @ map cell current_segments_zh
     @ [str ''</tr><tr class='pinyin-row'>'']
     @ map cell current_segments_py
     @ [str ''</tr><tr class='translation-row'>'']
     @ map cell current_segments_trans
     @ [str ''</tr></table></div>'']"

text \<open>The loop body of lines 199 to 213 on the state
  \<open>(html_parts, current_segments_zh, current_segments_py, current_segments_trans)\<close>.\<close>

type_synonym render_state = "pystr list \<times> pystr list \<times> pystr list \<times> pystr list"

fun render_item :: "render_state \<Rightarrow> item \<Rightarrow> render_state" where
  "render_item (html_parts, zhs, pys, transs) PARAGRAPH_BREAK =
     (if zhs \<noteq> [] then (html_parts @ paragraph_block zhs pys transs, [], [], [])
      else (html_parts, zhs, pys, transs))"
| "render_item (html_parts, zhs, pys, transs) (Annotation z p t) =
     (html_parts, zhs @ [z], pys @ [p], transs @ [t])"

definition render_loop :: "item list \<Rightarrow> pystr \<Rightarrow> render_state" where
  "render_loop annotated_chapter_data chapter_title =
     foldl render_item (html_head chapter_title, [], [], []) annotated_chapter_data"

text \<open>The list \<open>html_parts\<close> when line 226 joins it.\<close>

definition html_parts_of :: "item list \<Rightarrow> pystr \<Rightarrow> pystr list" where
  "html_parts_of annotated_chapter_data chapter_title =
     (case render_loop annotated_chapter_data chapter_title of
        (html_parts, zhs, pys, transs) \<Rightarrow>
          (if zhs \<noteq> [] then html_parts @ paragraph_block zhs pys transs else html_parts)
          @ [html_foot])"

definition generate_chapter_html_output :: "item list \<Rightarrow> pystr \<Rightarrow> pystr" where
  "generate_chapter_html_output annotated_chapter_data chapter_title =
     str_join [NL] (html_parts_of annotated_chapter_data chapter_title)"

section \<open>Processing one chapter\<close>

text \<open>\<open>read_and_concatenate_chapter_text\<close>, lines 87 to 102.  A page that cannot be
  read or parsed, or that has no content container, contributes nothing.\<close>

fun read_pages :: "'t env \<Rightarrow> page list \<Rightarrow> 't world \<Rightarrow> pystr list \<times> 't world" where
  "read_pages E [] w = ([], w)"
| "read_pages E (page_data # rest) w =
     (let page_text =
            (case files w (path page_data) of
               None \<Rightarrow> []
             | Some html_content \<Rightarrow>
                 (case content_paragraphs E html_content of
                    None \<Rightarrow> []
                  | Some page_text_parts \<Rightarrow>
                      str_join [NL] (filter (\<lambda>t. t \<noteq> []) page_text_parts)))
      in case read_pages E rest (emit (ReadPage (path page_data)) w) of
           (texts, w') \<Rightarrow> (if page_text \<noteq> [] then page_text # texts else texts, w'))"

definition read_and_concatenate_chapter_text :: "'t env \<Rightarrow> page list \<Rightarrow> 't world \<Rightarrow> pystr \<times> 't world" where
  "read_and_concatenate_chapter_text E page_files_data w =
     (case read_pages E page_files_data w of
        (full_chapter_text_list, w') \<Rightarrow> (str_join [NL] full_chapter_text_list, w'))"

text \<open>The inner loop of lines 272 to 286: one annotation per segment that is not
  blank.\<close>

fun annotate_segments :: "'t env \<Rightarrow> translator option \<Rightarrow> pystr list \<Rightarrow> 't world \<Rightarrow> item list \<times> 't world" where
  "annotate_segments E online_translator_obj [] w = ([], w)"
| "annotate_segments E online_translator_obj (seg # segments) w =
     (if strip seg = [] then annotate_segments E online_translator_obj segments w
      else
        (let pinyin_text = get_pinyin_for_segment E (strip seg) in
         case get_online_translation E (strip seg) online_translator_obj
                (emit (Transcribe (strip seg)) w) of
           (english_text, w1) \<Rightarrow>
             (case annotate_segments E online_translator_obj segments w1 of
                (annotations, w2) \<Rightarrow>
                  (Annotation (strip seg) pinyin_text english_text # annotations, w2))))"

text \<open>The outer loop of lines 250 to 287.  An exception of the tokenizer leaves
  \<open>process_chapter\<close>.  The progress lines, the count of segments and the flag
  \<open>annotation_errors_occurred\<close> feed the log only and are left out.\<close>

fun annotate_paragraphs :: "'t env \<Rightarrow> translator option \<Rightarrow> pystr list \<Rightarrow> 't world \<Rightarrow> (exc + item list) \<times> 't world" where
  "annotate_paragraphs E online_translator_obj [] w = (Inr [], w)"
| "annotate_paragraphs E online_translator_obj (para_text # paragraphs) w =
     (if strip para_text = [] then annotate_paragraphs E online_translator_obj paragraphs w
      else
        (case jieba_cut E para_text of
           Inl e \<Rightarrow> (Inl e, emit (Tokenize para_text) w)
         | Inr segments \<Rightarrow>
             (case annotate_segments E online_translator_obj segments
                     (emit (Tokenize para_text) w) of
                (annotations, w1) \<Rightarrow>
                  (case annotate_paragraphs E online_translator_obj paragraphs w1 of
                     (Inl e, w2) \<Rightarrow> (Inl e, w2)
                   | (Inr later, w2) \<Rightarrow>
                       (Inr (annotations @ [PARAGRAPH_BREAK] @ later), w2)))))"

text \<open>\<open>process_chapter\<close>, lines 229 to 302.  The result is the pair the function
  returns, or the exception that leaves it.\<close>

definition process_chapter :: "'t env \<Rightarrow> pystr \<Rightarrow> page list \<Rightarrow> pystr \<Rightarrow> translator option \<Rightarrow> 't world \<Rightarrow> (exc + pystr list \<times> bool) \<times> 't world" where
  "process_chapter E chapter_key page_files_data output_dir online_translator_obj w =
     (let output_filename = path_join output_dir (chapter_key @ str ''.html'') in
      if files w output_filename \<noteq> None
      then (Inr (map path page_files_data, True), w)
      else
        (case read_and_concatenate_chapter_text E page_files_data w of
           (full_chapter_text, w1) \<Rightarrow>
             if strip full_chapter_text = [] then (Inr ([], False), w1)
             else
               (case annotate_paragraphs E online_translator_obj
                       (segment_text_to_paragraphs full_chapter_text) w1 of
                  (Inl e, w2) \<Rightarrow> (Inl e, w2)
                | (Inr annotated_chapter_data, w2) \<Rightarrow>
                    (let html_output_content =
                           generate_chapter_html_output annotated_chapter_data
                             (title (interp E)
                                (map (\<lambda>c. if c = 95 then 32 else c) chapter_key));
                         w3 = emit (WriteFile output_filename) w2
                     in case open_write E output_filename html_output_content of
                          Written \<Rightarrow>
                            (Inr (map path page_files_data, False),
                             w3\<lparr>files := (files w3)(output_filename \<mapsto> html_output_content)\<rparr>)
                        | WriteFailed leftover \<Rightarrow>
                            (Inr ([], False),
                             w3\<lparr>files := (files w3)(output_filename := leftover)\<rparr>)))))"

section \<open>The batch\<close>

text \<open>The counters of line 332 and the list of line 331.\<close>

record tally =
  all_processed_source_files :: "pystr list"
  chapters_processed_count :: nat
  chapters_skipped_count :: nat
  chapters_error_count :: nat

text \<open>The loop of lines 334 to 354.\<close>

fun chapter_loop :: "'t env \<Rightarrow> translator option \<Rightarrow> chapters \<Rightarrow> tally \<Rightarrow> 't world \<Rightarrow> tally \<times> 't world" where
  "chapter_loop E online_translator [] t w = (t, w)"
| "chapter_loop E online_translator ((chapter_key, page_files_data) # rest) t w =
     (if page_files_data = [] then chapter_loop E online_translator rest t w
      else if online_translator = None
      then chapter_loop E online_translator rest
             (t\<lparr>chapters_error_count := chapters_error_count t + 1\<rparr>) w
      else
        (case process_chapter E chapter_key page_files_data OUTPUT_DIRECTORY online_translator w of
           (Inl KeyboardInterrupt, w') \<Rightarrow> (t, w')
         | (Inl Exception, w') \<Rightarrow>
             chapter_loop E online_translator rest
               (t\<lparr>chapters_error_count := chapters_error_count t + 1\<rparr>) w'
         | (Inr (processed_files_for_this_chapter, skipped), w') \<Rightarrow>
             if skipped
             then chapter_loop E online_translator rest
                    (t\<lparr>chapters_skipped_count := chapters_skipped_count t + 1\<rparr>) w'
             else if processed_files_for_this_chapter \<noteq> []
             then chapter_loop E online_translator rest
                    (t\<lparr>all_processed_source_files :=
                          all_processed_source_files t @ processed_files_for_this_chapter,
                        chapters_processed_count := chapters_processed_count t + 1\<rparr>) w'
             else chapter_loop E online_translator rest
                    (t\<lparr>chapters_error_count := chapters_error_count t + 1\<rparr>) w'))"

text \<open>The loop of lines 359 to 362.\<close>

fun delete_files :: "'t env \<Rightarrow> pystr list \<Rightarrow> 't world \<Rightarrow> 't world" where
  "delete_files E [] w = w"
| "delete_files E (filepath # rest) w =
     (if files w filepath \<noteq> None
      then (if remove_succeeds E filepath
            then delete_files E rest
                   ((emit (RemoveFile filepath) w)\<lparr>files := (files w)(filepath := None)\<rparr>)
            else delete_files E rest (emit (RemoveFile filepath) w))
      else delete_files E rest w)"

text \<open>Lines 310 to 326: the translator object and the test call.  The object is
  bound before the test call, so it stays bound when the test call raises.\<close>

definition initialize_translator :: "'t env \<Rightarrow> 't world \<Rightarrow> translator option \<times> 't world" where
  "initialize_translator E w =
     (if \<not> translator_constructs E then (None, w)
      else (case translate E (provider w) [20320, 22909] of
              (r, p') \<Rightarrow> (Some GoogleTranslator, emit (Translate [20320, 22909]) (w\<lparr>provider := p'\<rparr>))))"

text \<open>
  \<open>main\<close>, lines 304 to 373, given the names found in the source directory.  What the
  run reports is how it ended: without the library, without chapters, or with the
  summary of lines 369 to 371.
  Creating the output directory and extending the tokenizer's dictionary (lines 307
  and 308) touch nothing that the world holds.
\<close>

datatype report = No_library | No_chapters | Summary tally

definition main :: "'t env \<Rightarrow> pystr list \<Rightarrow> 't world \<Rightarrow> report \<times> 't world" where
  "main E names w =
     (if \<not> DEEP_TRANSLATOR_AVAILABLE E then (No_library, w)
      else
        (case initialize_translator E w of
           (online_translator, w1) \<Rightarrow>
             (let grouped_chapters =
                    group_html_files (interp E) (glob_html SOURCE_DIRECTORY names)
              in if grouped_chapters = [] then (No_chapters, w1)
                 else
                   (case chapter_loop E online_translator grouped_chapters
                           \<lparr>all_processed_source_files = [], chapters_processed_count = 0,
                            chapters_skipped_count = 0, chapters_error_count = 0\<rparr> w1 of
                      (t, w2) \<Rightarrow>
                        (Summary t,
                         if DELETE_SOURCE_FILES_AFTER_PROCESSING
                            \<and> all_processed_source_files t \<noteq> []
                         then delete_files E (all_processed_source_files t) w2
                         else w2)))))"

section \<open>Sample collaborators\<close>

text \<open>
  Concrete settings and collaborators on which the definitions can be run: fullwidth
  digits as the only decimal digits beyond ASCII, ASCII letters, digits and the CJK
  ideographs as the alphanumeric characters, ASCII lowering, the default bound of 4300
  digits, and a provider that counts its calls and answers every one with a
  rate-limit error.
\<close>

definition ascii_lower :: "pychar \<Rightarrow> pychar" where
  "ascii_lower c = (if 65 \<le> c \<and> c \<le> 90 then c + 32 else c)"

definition sample_interpreter :: interpreter where
  "sample_interpreter =
     \<lparr>decimal_value = (\<lambda>c. if 65296 \<le> c \<and> c \<le> 65305 then Some (c - 65296) else None),
      isalnum = (\<lambda>c. (48 \<le> c \<and> c \<le> 57) \<or> (65 \<le> c \<and> c \<le> 90) \<or> (97 \<le> c \<and> c \<le> 122)
                      \<or> is_cjk c),
      lower = map ascii_lower,
      title = (\<lambda>s. s),
      int_max_str_digits = 4300\<rparr>"

definition sample_env :: "nat env" where
  "sample_env =
     \<lparr>interp = sample_interpreter,
      DEEP_TRANSLATOR_AVAILABLE = True,
      translator_constructs = True,
      translate = (\<lambda>n s. (Raised (str ''HTTP Error 429: Too Many Requests''), Suc n)),
      jieba_cut = (\<lambda>s. Inr [s]),
      pinyin = (\<lambda>s. Some [[str ''ni'']]),
      content_paragraphs = (\<lambda>html. Some [html]),
      open_write = (\<lambda>p c. Written),
      remove_succeeds = (\<lambda>p. True)\<rparr>"

definition empty_world :: "nat world" where
  "empty_world = \<lparr>files = Map.empty, provider = 0, trace = []\<rparr>"

text \<open>
  One page of one chapter, and two worlds: one in which the chapter has no output yet,
  and one in which its output is already there.
\<close>

definition sample_page :: pystr where
  "sample_page = str ''data/volume1_chapter1_1.html''"

definition sample_output :: pystr where
  "sample_output = str ''output/volume1_chapter1.html''"

definition fresh_world :: "nat world" where
  "fresh_world = \<lparr>files = [sample_page \<mapsto> [20320, 22909]], provider = 0, trace = []\<rparr>"

definition rerun_world :: "nat world" where
  "rerun_world = \<lparr>files = [sample_page \<mapsto> [20320, 22909], sample_output \<mapsto> str ''old''],
                   provider = 0, trace = []\<rparr>"

section \<open>What the claims speak of\<close>

text \<open>
  The calls and sleeps that the rate-limit policy prescribes for one segment:
  \<open>MAX_RETRIES + 1\<close> provider calls, and between two consecutive calls a sleep of
  \<open>BASE_DELAY * RATE_LIMIT_MULTIPLIER * (attemptIndex + 1)\<close>.
\<close>

definition rate_limit_schedule :: "pystr \<Rightarrow> event list" where
  "rate_limit_schedule segment =
     concat (map (\<lambda>attemptIndex.
                Translate segment #
                (if attemptIndex < ONLINE_TRANSLATION_MAX_RETRIES
                 then [Sleep (ONLINE_TRANSLATION_BASE_DELAY
                              * of_nat ONLINE_TRANSLATION_RATE_LIMIT_MULTIPLIER
                              * of_nat (attemptIndex + 1))]
                 else []))
            [0 ..< ONLINE_TRANSLATION_MAX_RETRIES + 1])"

definition is_provider_call :: "event \<Rightarrow> bool" where
  "is_provider_call e = (case e of Translate s \<Rightarrow> True | _ \<Rightarrow> False)"

text \<open>
  The paragraphs of an annotation stream: the maximal runs of annotations between
  breaks, empty runs left out.  \<open>groups_from cur\<close> reads on with \<open>cur\<close> already
  gathered.
\<close>

fun groups_from :: "item list \<Rightarrow> item list \<Rightarrow> item list list" where
  "groups_from cur [] = (if cur = [] then [] else [cur])"
| "groups_from cur (PARAGRAPH_BREAK # rest) =
     (if cur = [] then groups_from [] rest else cur # groups_from [] rest)"
| "groups_from cur (Annotation z p t # rest) = groups_from (cur @ [Annotation z p t]) rest"

definition paragraph_groups :: "item list \<Rightarrow> item list list" where
  "paragraph_groups annotated_chapter_data = groups_from [] annotated_chapter_data"

text \<open>
  The lines of the block of one paragraph, written out: the opening of the block,
  then the row of the originals, the row of the transcriptions and the row of the
  glosses, each with one cell for every annotation of the paragraph (a cell whose
  content is blank holds U+00A0), then the closing.
\<close>

definition block_lines :: "item list \<Rightarrow> pystr list" where
  "block_lines g =
     [str ''<div class='segment-block'><table class='chapter-table'>'',
      str ''<tr class='chinese-row'>'']
     @ map (\<lambda>a. str ''<td>'' @ (if blank (zh a) then [160] else zh a) @ str ''</td>'') g
     @ [str ''</tr><tr class='pinyin-row'>'']
     @ map (\<lambda>a. str ''<td>'' @ (if blank (py a) then [160] else py a) @ str ''</td>'') g
     @ [str ''</tr><tr class='translation-row'>'']
     @ map (\<lambda>a. str ''<td>'' @ (if blank (trans_text a) then [160] else trans_text a) @ str ''</td>'') g
     @ [str ''</tr></table></div>'']"

text \<open>
  Reading a list of emitted parts back.  A block is counted by its opening part.  A
  row begins at a part that opens a \<open>tr\<close> element, of one of three kinds, and its
  cells are the \<open>td\<close> parts that follow it directly; \<open>table_rows\<close> lists the rows in
  order, each with its kind and the number of its cells.
\<close>

definition is_block_start :: "pystr \<Rightarrow> bool" where
  "is_block_start part = (part = str ''<div class='segment-block'><table class='chapter-table'>'')"

definition emitted_blocks :: "pystr list \<Rightarrow> nat" where
  "emitted_blocks parts = length (filter is_block_start parts)"

datatype row_kind = Original | Phonetic | Gloss

definition row_start :: "pystr \<Rightarrow> row_kind option" where
  "row_start part =
     (if part = str ''<tr class='chinese-row'>'' then Some Original
      else if part = str ''</tr><tr class='pinyin-row'>'' then Some Phonetic
      else if part = str ''</tr><tr class='translation-row'>'' then Some Gloss
      else None)"

definition is_cell :: "pystr \<Rightarrow> bool" where
  "is_cell part = (take 4 part = str ''<td>'')"

fun table_rows :: "pystr list \<Rightarrow> (row_kind \<times> nat) list" where
  "table_rows [] = []"
| "table_rows (part # parts) =
     (case row_start part of
        Some k \<Rightarrow> (k, length (takeWhile is_cell parts)) # table_rows parts
      | None \<Rightarrow> table_rows parts)"

definition is_annotation :: "item \<Rightarrow> bool" where
  "is_annotation i = (i \<noteq> PARAGRAPH_BREAK)"

text \<open>
  What the regular expression of line 63 accepts, declaratively: \<open>volume\<close>, digits, \<open>_chapter\<close>, digits,
  \<open>_\<close>, digits, \<open>.html\<close>, the letters in either case, and anything after.  \<open>V\<close>,
  \<open>C\<close> and \<open>P\<close> are the three digit fields; \<open>decimal_number\<close> is the number a
  digit string denotes.
\<close>

definition ci_literal :: "string \<Rightarrow> pystr \<Rightarrow> bool" where
  "ci_literal lit s = list_all2 ci_char lit s"

definition decimal_number :: "interpreter \<Rightarrow> pystr \<Rightarrow> nat" where
  "decimal_number U s = foldl (\<lambda>acc c. 10 * acc + (case decimal U c of Some d \<Rightarrow> d | None \<Rightarrow> 0)) 0 s"

definition pattern_match :: "interpreter \<Rightarrow> pystr \<Rightarrow> pystr \<Rightarrow> pystr \<Rightarrow> pystr \<Rightarrow> bool" where
  "pattern_match U name V C P =
     (\<exists>a b d rest.
        name = a @ V @ b @ C @ [95] @ P @ d @ rest
        \<and> ci_literal ''volume'' a \<and> ci_literal ''_chapter'' b \<and> ci_literal ''.html'' d
        \<and> V \<noteq> [] \<and> list_all (isdecimal U) V
        \<and> C \<noteq> [] \<and> list_all (isdecimal U) C
        \<and> P \<noteq> [] \<and> list_all (isdecimal U) P)"


text \<open>The paths of all pages of a list of chapters.\<close>

definition chapter_paths :: "chapters \<Rightarrow> pystr set" where
  "chapter_paths cs = (\<Union>(k, pages) \<in> set cs. path ` set pages)"

section \<open>Paragraphs\<close>

lemma length_re_split_newlines: "length (re_split_newlines s) = Suc (newline_runs s)"
  by (induction s rule: re_split_newlines.induct) (auto split: list.splits)

lemma strip_fixed:
  assumes "s = [] \<or> (\<not> isspace (hd s) \<and> \<not> isspace (last s))"
  shows "strip s = s"
proof (cases "s = []")
  case True
  then show ?thesis by (simp add: strip_def)
next
  case False
  with assms have h: "\<not> isspace (hd s)" and l: "\<not> isspace (last s)" by auto
  from False h have a: "dropWhile isspace s = s" by (cases s) auto
  from False l have b: "dropWhile isspace (rev s) = rev s"
    by (cases "rev s") (auto simp: last_rev[symmetric] hd_rev)
  show ?thesis by (simp add: strip_def a b)
qed

lemma strip_ends:
  "strip s = [] \<or> (\<not> isspace (hd (strip s)) \<and> \<not> isspace (last (strip s)))"
proof -
  define u where "u = dropWhile isspace s"
  define t where "t = dropWhile isspace (rev u)"
  have st: "strip s = rev t" by (simp add: strip_def u_def t_def)
  show ?thesis
  proof (cases "t = []")
    case True
    then show ?thesis by (simp add: st)
  next
    case False
    then have ht: "\<not> isspace (hd t)" unfolding t_def by (metis hd_dropWhile)
    have "rev u = takeWhile isspace (rev u) @ t" by (simp add: t_def)
    with False have "last t = last (rev u)" by (metis last_appendR)
    moreover from False have un: "u \<noteq> []" by (auto simp: t_def)
    ultimately have "last t = hd u" by (simp add: last_rev)
    moreover from un have "\<not> isspace (hd u)" unfolding u_def by (metis hd_dropWhile)
    ultimately have lt: "\<not> isspace (last t)" by simp
    from False ht lt show ?thesis by (simp add: st hd_rev last_rev)
  qed
qed

lemma strip_idem: "strip (strip s) = strip s"
  using strip_ends [of s] by (rule strip_fixed)

lemma strip_samples: "strip [97] = [97]" "strip [32] = []" "strip [98] = [98]"
  by (simp_all add: strip_def isspace_def)

lemma split_sample: "re_split_newlines [97, 10, 32, 10, 98] = [[97], [32], [98]]"
  by (simp add: NL_def)

lemma runs_sample: "newline_runs [97, 10, 32, 10, 98] = 2"
  by (simp add: NL_def)

text \<open>
  C6, as the code has it.  A text with \<open>N\<close> newline runs is split into \<open>N + 1\<close>
  pieces, and the paragraphs are the trimmed pieces that are neither blank (empty or
  whitespace only) nor the placeholder alone, in order.  So there are exactly
  \<open>N + 1\<close> paragraphs when no piece is blank or placeholder-only, and fewer when one
  is: a leading or trailing newline run and a whitespace-only line each cost one.
  Every paragraph is non-empty, trimmed, and not the placeholder glyph.
\<close>

theorem paragraphs_of_newline_runs:
  "length (re_split_newlines text) = newline_runs text + 1
   \<and> segment_text_to_paragraphs text
       = map strip (filter (\<lambda>para. \<not> blank para \<and> \<not> placeholder_only para)
                      (re_split_newlines text))
   \<and> (if list_ex blank (re_split_newlines text)
          \<or> list_ex placeholder_only (re_split_newlines text)
       then length (segment_text_to_paragraphs text) < newline_runs text + 1
       else length (segment_text_to_paragraphs text) = newline_runs text + 1)
   \<and> list_all (\<lambda>para. para \<noteq> [] \<and> strip para = para \<and> para \<noteq> PLACEHOLDER)
        (segment_text_to_paragraphs text)"
proof -
  let ?ps = "re_split_newlines text"
  let ?keep = "\<lambda>para. \<not> blank para \<and> \<not> placeholder_only para"
  have n: "length ?ps = newline_runs text + 1" by (simp add: length_re_split_newlines)
  have d: "segment_text_to_paragraphs text = map strip (filter ?keep ?ps)"
    by (simp add: segment_text_to_paragraphs_def blank_def placeholder_only_def)
  have len: "length (segment_text_to_paragraphs text) = length (filter ?keep ?ps)"
    by (simp add: d)
  have c: "if list_ex blank ?ps \<or> list_ex placeholder_only ?ps
       then length (segment_text_to_paragraphs text) < newline_runs text + 1
       else length (segment_text_to_paragraphs text) = newline_runs text + 1"
  proof (cases "list_ex blank ?ps \<or> list_ex placeholder_only ?ps")
    case True
    then have "\<exists>x\<in>set ?ps. \<not> ?keep x" by (auto simp: list_ex_iff)
    then have "length (filter ?keep ?ps) < length ?ps" by (blast intro: length_filter_less)
    with True len n show ?thesis by simp
  next
    case False
    then have "\<forall>x\<in>set ?ps. ?keep x" by (auto simp: list_ex_iff)
    then have "filter ?keep ?ps = ?ps" by (simp add: filter_True)
    with False len n show ?thesis by simp
  qed
  have a: "list_all (\<lambda>para. para \<noteq> [] \<and> strip para = para \<and> para \<noteq> PLACEHOLDER)
             (segment_text_to_paragraphs text)"
    by (auto simp: d list_all_iff strip_idem blank_def placeholder_only_def)
  from n d c a show ?thesis by blast
qed

text \<open>On \<open>"a\n\nb"\<close>: one run, two pieces, two paragraphs.\<close>

theorem paragraphs_of_newline_runs_witness:
  "length (re_split_newlines [97, 10, 10, 98]) = 2
   \<and> length (segment_text_to_paragraphs [97, 10, 10, 98]) = newline_runs [97, 10, 10, 98] + 1"
  using paragraphs_of_newline_runs [of "[97, 10, 10, 98]"]
  by (simp add: NL_def blank_def placeholder_only_def strip_samples PLACEHOLDER_def)

text \<open>
  C6 as stated fails on \<open>"a\n \nb"\<close>: two newline runs, both between text, no piece
  that is the placeholder alone, and two paragraphs, not three, because the piece
  between the runs is blank.
\<close>

theorem paragraphs_blank_line_counterexample:
  "newline_runs [97, 10, 32, 10, 98] = 2
   \<and> \<not> list_ex placeholder_only (re_split_newlines [97, 10, 32, 10, 98])
   \<and> segment_text_to_paragraphs [97, 10, 32, 10, 98] = [[97], [98]]
   \<and> length (segment_text_to_paragraphs [97, 10, 32, 10, 98])
       \<noteq> newline_runs [97, 10, 32, 10, 98] + 1"
  by (simp add: split_sample runs_sample segment_text_to_paragraphs_def placeholder_only_def
        strip_samples PLACEHOLDER_def NL_def)

section \<open>The gloss resolver\<close>

lemma list_ex_dropWhile:
  assumes "\<And>x. P x \<Longrightarrow> \<not> Q x"
  shows "list_ex P (dropWhile Q xs) = list_ex P xs"
  using assms by (induction xs) auto

lemma cjk_not_space: "is_cjk c \<Longrightarrow> \<not> isspace c"
  by (auto simp: is_cjk_def isspace_def)

lemma list_ex_cjk_strip: "list_ex is_cjk (strip s) = list_ex is_cjk s"
proof -
  have "list_ex is_cjk (strip s) = list_ex is_cjk (dropWhile isspace (rev (dropWhile isspace s)))"
    by (simp add: strip_def list_ex_iff)
  also have "\<dots> = list_ex is_cjk (rev (dropWhile isspace s))"
    by (rule list_ex_dropWhile) (rule cjk_not_space)
  also have "\<dots> = list_ex is_cjk (dropWhile isspace s)" by (simp add: list_ex_iff)
  also have "\<dots> = list_ex is_cjk s" by (rule list_ex_dropWhile) (rule cjk_not_space)
  finally show ?thesis .
qed

lemma strip_Nil: "strip [] = []"
  by (simp add: strip_def)

text \<open>
  C4.  With the library and a translator object at hand, as they are whenever
  \<open>main\<close> lets a chapter be processed, the resolver answers three kinds of input
  without touching the world, so without a provider call; the filters are tried in
  this order.  A blank input (empty or whitespace only) gives the one-character
  placeholder U+00A0, a space.  Any other input whose trimmed form is one character
  long and not alphanumeric is returned as it came, and so is any other input without
  a character in U+4E00..U+9FFF.
\<close>

theorem gloss_short_circuit:
  assumes "DEEP_TRANSLATOR_AVAILABLE E" and "online_translator_obj = Some GoogleTranslator"
  shows "(strip segment = [] \<longrightarrow>
            get_online_translation E segment online_translator_obj w = (NBSP, w))
       \<and> (strip segment \<noteq> [] \<and> length (strip segment) \<le> 1
            \<and> \<not> str_isalnum (interp E) (strip segment) \<longrightarrow>
            get_online_translation E segment online_translator_obj w = (segment, w))
       \<and> (strip segment \<noteq> [] \<and> \<not> list_ex is_cjk segment \<longrightarrow>
            get_online_translation E segment online_translator_obj w = (segment, w))
       \<and> length NBSP = 1 \<and> list_all isspace NBSP"
proof -
  have "length NBSP = 1 \<and> list_all isspace NBSP" by (simp add: NBSP_def isspace_def)
  with assms show ?thesis
    by (auto simp: get_online_translation_def list_ex_cjk_strip strip_Nil)
qed

text \<open>The empty string, a blank string, \<open>"!"\<close> and \<open>"ok"\<close>.\<close>

theorem gloss_short_circuit_witness:
  "get_online_translation sample_env [] (Some GoogleTranslator) empty_world = (NBSP, empty_world)
   \<and> get_online_translation sample_env [32, 9] (Some GoogleTranslator) empty_world = (NBSP, empty_world)
   \<and> get_online_translation sample_env [33] (Some GoogleTranslator) empty_world = ([33], empty_world)
   \<and> get_online_translation sample_env [111, 107] (Some GoogleTranslator) empty_world = ([111, 107], empty_world)"
proof -
  have a: "DEEP_TRANSLATOR_AVAILABLE sample_env" by (simp add: sample_env_def)
  have s: "strip [] = []" "strip [32, 9] = []" "strip [33] = [33]" "strip [111, 107] = [111, 107]"
    by (simp_all add: strip_def isspace_def)
  have n: "\<not> str_isalnum (interp sample_env) [33]"
    by (simp add: str_isalnum_def sample_env_def sample_interpreter_def is_cjk_def)
  have c: "\<not> list_ex is_cjk [111, 107]" by (simp add: is_cjk_def)
  show ?thesis
    using gloss_short_circuit [OF a refl, of "[]" empty_world]
      gloss_short_circuit [OF a refl, of "[32, 9]" empty_world]
      gloss_short_circuit [OF a refl, of "[33]" empty_world]
      gloss_short_circuit [OF a refl, of "[111, 107]" empty_world]
    by (simp add: s n is_cjk_def)
qed

lemma attempt_raised:
  assumes "attempt \<le> ONLINE_TRANSLATION_MAX_RETRIES"
    and "translate E (provider w) segment = (Raised e, p')"
    and "rate_limited (interp E) e"
  shows "translation_attempts E segment attempt w =
     (if attempt < ONLINE_TRANSLATION_MAX_RETRIES
      then translation_attempts E segment (attempt + 1)
             (sleep (ONLINE_TRANSLATION_BASE_DELAY
                       * of_nat ONLINE_TRANSLATION_RATE_LIMIT_MULTIPLIER
                       * of_nat (attempt + 1))
                (emit (Translate segment) (w\<lparr>provider := p'\<rparr>)))
      else (str ''Translation Failed (Rate Limit)'', emit (Translate segment) (w\<lparr>provider := p'\<rparr>)))"
  using assms by (subst translation_attempts.simps) simp

lemma attempts_rate_limited:
  assumes r: "\<And>p. \<exists>e p'. translate E p segment = (Raised e, p') \<and> rate_limited (interp E) e"
  shows "attempt \<le> ONLINE_TRANSLATION_MAX_RETRIES \<Longrightarrow>
         fst (translation_attempts E segment attempt w) = str ''Translation Failed (Rate Limit)''
       \<and> files (snd (translation_attempts E segment attempt w)) = files w
       \<and> trace (snd (translation_attempts E segment attempt w))
           = trace w @ concat (map (\<lambda>attemptIndex.
                Translate segment #
                (if attemptIndex < ONLINE_TRANSLATION_MAX_RETRIES
                 then [Sleep (ONLINE_TRANSLATION_BASE_DELAY
                              * of_nat ONLINE_TRANSLATION_RATE_LIMIT_MULTIPLIER
                              * of_nat (attemptIndex + 1))]
                 else []))
            [attempt ..< ONLINE_TRANSLATION_MAX_RETRIES + 1])"
proof (induction "ONLINE_TRANSLATION_MAX_RETRIES - attempt" arbitrary: attempt w)
  case 0
  then have eq: "attempt = ONLINE_TRANSLATION_MAX_RETRIES" by simp
  obtain e p' where t: "translate E (provider w) segment = (Raised e, p')"
    and rl: "rate_limited (interp E) e" using r by blast
  show ?case
    unfolding attempt_raised [OF "0.prems" t rl] by (simp add: eq emit_def)
next
  case (Suc n)
  then have lt: "attempt < ONLINE_TRANSLATION_MAX_RETRIES" by simp
  obtain e p' where t: "translate E (provider w) segment = (Raised e, p')"
    and rl: "rate_limited (interp E) e" using r by blast
  define w' where "w' = sleep (ONLINE_TRANSLATION_BASE_DELAY * of_nat ONLINE_TRANSLATION_RATE_LIMIT_MULTIPLIER
                     * of_nat (attempt + 1)) (emit (Translate segment) (w\<lparr>provider := p'\<rparr>))"
  have step: "translation_attempts E segment attempt w = translation_attempts E segment (attempt + 1) w'"
    using lt by (simp add: attempt_raised [OF Suc.prems t rl] w'_def)
  have n: "n = ONLINE_TRANSLATION_MAX_RETRIES - (attempt + 1)" using Suc.hyps(2) by simp
  have le: "attempt + 1 \<le> ONLINE_TRANSLATION_MAX_RETRIES" using lt by simp
  note ih = Suc.hyps(1) [OF n le, of w']
  have u: "[attempt ..< ONLINE_TRANSLATION_MAX_RETRIES + 1]
             = attempt # [attempt + 1 ..< ONLINE_TRANSLATION_MAX_RETRIES + 1]"
    using lt by (simp add: upt_conv_Cons)
  have w': "files w' = files w" "trace w' = trace w @ [Translate segment,
       Sleep (ONLINE_TRANSLATION_BASE_DELAY * of_nat ONLINE_TRANSLATION_RATE_LIMIT_MULTIPLIER
                     * of_nat (attempt + 1))]"
    by (simp_all add: w'_def sleep_def emit_def)
  show ?case
    unfolding step u using ih lt by (simp add: w')
qed

text \<open>
  C3.  Let the segment contain a CJK ideograph, let the library and the translator
  object be at hand, and let every call of the provider for this segment raise an
  error whose lowered text contains \<open>429\<close>, \<open>too many requests\<close> or \<open>rate limit\<close>.
  Then the resolver returns the marker \<open>Translation Failed (Rate Limit)\<close>; what it
  adds to the trace is exactly the schedule: \<open>MAX_RETRIES + 1\<close> provider calls with a
  sleep of \<open>BASE_DELAY * RATE_LIMIT_MULTIPLIER * (attemptIndex + 1)\<close> between
  consecutive ones and none after the last; and no file changes.  The resolver is a
  total function into strings: the provider's error never leaves it.  (The ideographs
  are letters, so \<open>str.isalnum\<close> holds of them; the theorem asks this of the table.)
\<close>

theorem rate_limit_exhaustion:
  assumes "DEEP_TRANSLATOR_AVAILABLE E" and "online_translator_obj = Some GoogleTranslator"
    and "list_ex is_cjk segment"
    and "\<And>c. is_cjk c \<Longrightarrow> isalnum (interp E) c"
    and "\<And>p. \<exists>e p'. translate E p segment = (Raised e, p') \<and> rate_limited (interp E) e"
  shows "fst (get_online_translation E segment online_translator_obj w)
           = str ''Translation Failed (Rate Limit)''
       \<and> trace (snd (get_online_translation E segment online_translator_obj w))
           = trace w @ rate_limit_schedule segment
       \<and> length (filter is_provider_call (rate_limit_schedule segment))
           = ONLINE_TRANSLATION_MAX_RETRIES + 1
       \<and> files (snd (get_online_translation E segment online_translator_obj w)) = files w"
proof -
  have c: "list_ex is_cjk (strip segment)" using assms(3) by (simp add: list_ex_cjk_strip)
  then have ne: "strip segment \<noteq> []" "segment \<noteq> []" using assms(3) by auto
  have al: "length (strip segment) \<le> 1 \<Longrightarrow> str_isalnum (interp E) (strip segment)"
  proof -
    assume "length (strip segment) \<le> 1"
    with ne obtain x where x: "strip segment = [x]" by (cases "strip segment") auto
    with c have "is_cjk x" by simp
    with x show ?thesis by (simp add: str_isalnum_def assms(4))
  qed
  have g: "get_online_translation E segment online_translator_obj w
             = translation_attempts E segment 0 w"
    using assms(1,2) c ne al by (auto simp: get_online_translation_def)
  have k: "length (filter is_provider_call (rate_limit_schedule segment))
           = ONLINE_TRANSLATION_MAX_RETRIES + 1"
    by (simp add: rate_limit_schedule_def ONLINE_TRANSLATION_MAX_RETRIES_def is_provider_call_def
          upt_rec numeral_eq_Suc)
  show ?thesis
    unfolding g using attempts_rate_limited [OF assms(5), of 0 w] k
    by (simp add: rate_limit_schedule_def)
qed

lemma sample_schedule:
  "rate_limit_schedule s = [Translate s, Sleep (6 / 5), Translate s, Sleep (12 / 5), Translate s]"
  by (simp add: rate_limit_schedule_def ONLINE_TRANSLATION_MAX_RETRIES_def
        ONLINE_TRANSLATION_BASE_DELAY_def ONLINE_TRANSLATION_RATE_LIMIT_MULTIPLIER_def
        upt_rec numeral_eq_Suc)

lemma contains_sample: "contains (str ''429'') (map ascii_lower (str ''HTTP Error 429: Too Many Requests''))"
  by (simp add: str_def ascii_lower_def)

text \<open>The segment U+4F60 U+597D against the sample provider: three calls, sleeps of
  1.2 and 2.4 seconds.\<close>

theorem rate_limit_exhaustion_witness:
  "fst (get_online_translation sample_env [20320, 22909] (Some GoogleTranslator) empty_world)
     = str ''Translation Failed (Rate Limit)''
   \<and> trace (snd (get_online_translation sample_env [20320, 22909] (Some GoogleTranslator) empty_world))
     = [Translate [20320, 22909], Sleep (6 / 5), Translate [20320, 22909], Sleep (12 / 5),
        Translate [20320, 22909]]"
proof -
  have a: "DEEP_TRANSLATOR_AVAILABLE sample_env" by (simp add: sample_env_def)
  have c: "list_ex is_cjk [20320, 22909]" by (simp add: is_cjk_def)
  have al: "\<And>c. is_cjk c \<Longrightarrow> isalnum (interp sample_env) c"
    by (simp add: sample_env_def sample_interpreter_def)
  have r: "\<And>p. \<exists>e p'. translate sample_env p [20320, 22909] = (Raised e, p')
                     \<and> rate_limited (interp sample_env) e"
    using contains_sample by (simp add: sample_env_def sample_interpreter_def rate_limited_def)
  show ?thesis
    using rate_limit_exhaustion [OF a refl c al r, of empty_world]
    by (simp add: sample_schedule empty_world_def)
qed

section \<open>The renderer\<close>

lemma paragraph_block_lines:
  "paragraph_block (map zh g) (map py g) (map trans_text g) = block_lines g"
  by (simp add: paragraph_block_def block_lines_def cell_def NBSP_def blank_def comp_def)

lemma render_groups:
  "(case foldl render_item (parts, map zh cur, map py cur, map trans_text cur) data of
      (parts', zhs, pys, transs) \<Rightarrow>
        (if zhs \<noteq> [] then parts' @ paragraph_block zhs pys transs else parts'))
   = parts @ concat (map block_lines (groups_from cur data))"
proof (induction data arbitrary: parts cur)
  case Nil
  then show ?case by (simp add: paragraph_block_lines)
next
  case (Cons i data)
  show ?case
  proof (cases i)
    case PARAGRAPH_BREAK
    show ?thesis
    proof (cases "cur = []")
      case True
      with PARAGRAPH_BREAK Cons.IH [of parts "[]"] show ?thesis by simp
    next
      case False
      with PARAGRAPH_BREAK Cons.IH [of "parts @ block_lines cur" "[]"] show ?thesis
        by (simp add: paragraph_block_lines)
    qed
  next
    case (Annotation z p t)
    with Cons.IH [of parts "cur @ [Annotation z p t]"] show ?thesis by simp
  qed
qed

lemma html_parts_groups:
  "html_parts_of data chapter_title
     = html_head chapter_title @ concat (map block_lines (paragraph_groups data)) @ [html_foot]"
proof -
  obtain parts zhs pys transs
    where f: "foldl render_item (html_head chapter_title, [], [], []) data = (parts, zhs, pys, transs)"
    by (metis prod_cases4)
  from render_groups [of "html_head chapter_title" "[]" data] f
  have "(if zhs \<noteq> [] then parts @ paragraph_block zhs pys transs else parts)
          = html_head chapter_title @ concat (map block_lines (groups_from [] data))"
    by simp
  then show ?thesis
    by (simp add: html_parts_of_def render_loop_def paragraph_groups_def f)
qed

lemma groups_from_wf:
  "list_all is_annotation cur \<Longrightarrow>
   list_all (\<lambda>g. g \<noteq> [] \<and> list_all is_annotation g) (groups_from cur data)"
  by (induction cur data rule: groups_from.induct) (auto simp: is_annotation_def)

lemma groups_from_annotations:
  "list_all is_annotation anns \<Longrightarrow> groups_from cur anns = (if cur @ anns = [] then [] else [cur @ anns])"
  by (induction cur anns rule: groups_from.induct) (auto simp: is_annotation_def)

lemma groups_from_snoc_break:
  "groups_from cur (pre @ [PARAGRAPH_BREAK] @ rest) = groups_from cur (pre @ [PARAGRAPH_BREAK]) @ groups_from [] rest"
  by (induction cur pre rule: groups_from.induct) auto

lemma groups_from_breaks: "groups_from [] (replicate n PARAGRAPH_BREAK) = []"
  by (induction n) auto

lemma groups_snoc_annotations:
  assumes "anns \<noteq> []" "list_all is_annotation anns" "pre = [] \<or> last pre = PARAGRAPH_BREAK"
  shows "paragraph_groups (pre @ anns) = paragraph_groups pre @ [anns]"
proof (cases "pre = []")
  case True
  with assms show ?thesis by (simp add: paragraph_groups_def groups_from_annotations)
next
  case False
  with assms(3) obtain pre' where p: "pre = pre' @ [PARAGRAPH_BREAK]"
    by (metis append_butlast_last_id)
  have "groups_from [] (pre' @ [PARAGRAPH_BREAK] @ anns)
          = groups_from [] (pre' @ [PARAGRAPH_BREAK]) @ groups_from [] anns"
    by (rule groups_from_snoc_break)
  with assms p show ?thesis by (simp add: paragraph_groups_def groups_from_annotations)
qed

lemma buffers_in_step:
  "length zhs = length pys \<Longrightarrow> length pys = length transs \<Longrightarrow>
   length (fst (snd (foldl render_item (parts, zhs, pys, transs) data)))
     = length (fst (snd (snd (foldl render_item (parts, zhs, pys, transs) data))))
   \<and> length (fst (snd (snd (foldl render_item (parts, zhs, pys, transs) data))))
     = length (snd (snd (snd (foldl render_item (parts, zhs, pys, transs) data))))"
proof (induction data arbitrary: parts zhs pys transs)
  case Nil
  then show ?case by simp
next
  case (Cons i data)
  then show ?case by (cases i) auto
qed

subsection \<open>Counting the blocks among the parts\<close>

lemma emitted_blocks_append:
  "emitted_blocks (xs @ ys) = emitted_blocks xs + emitted_blocks ys"
  by (simp add: emitted_blocks_def)

lemma emitted_blocks_head: "emitted_blocks (html_head chapter_title) = 0"
  by (simp add: emitted_blocks_def html_head_def is_block_start_def str_def)

lemma emitted_blocks_foot: "emitted_blocks [html_foot] = 0"
  by (simp add: emitted_blocks_def html_foot_def is_block_start_def str_def)

lemma cell_no_block_start: "\<not> is_block_start (str ''<td>'' @ x)"
  by (simp add: is_block_start_def str_def)

lemma emitted_blocks_cells: "emitted_blocks (map (\<lambda>a. str ''<td>'' @ f a) g) = 0"
  by (induction g) (simp_all add: emitted_blocks_def cell_no_block_start)

lemma emitted_blocks_block: "emitted_blocks (block_lines g) = 1"
proof -
  have "emitted_blocks [str ''<div class='segment-block'><table class='chapter-table'>'',
                        str ''<tr class='chinese-row'>''] = 1"
    and "emitted_blocks [str ''</tr><tr class='pinyin-row'>''] = 0"
    and "emitted_blocks [str ''</tr><tr class='translation-row'>''] = 0"
    and "emitted_blocks [str ''</tr></table></div>''] = 0"
    by (simp_all add: emitted_blocks_def is_block_start_def str_def)
  then show ?thesis
    unfolding block_lines_def by (simp only: emitted_blocks_append emitted_blocks_cells)
qed

lemma emitted_blocks_groups: "emitted_blocks (concat (map block_lines gs)) = length gs"
  by (induction gs) (simp_all add: emitted_blocks_append emitted_blocks_block, simp add: emitted_blocks_def)

lemma emitted_blocks_parts:
  "emitted_blocks (html_parts_of data chapter_title) = length (paragraph_groups data)"
  by (simp add: html_parts_groups emitted_blocks_append emitted_blocks_head emitted_blocks_foot
      emitted_blocks_groups)

subsection \<open>Reading the rows back\<close>

lemma table_rows_skip:
  "list_all (\<lambda>p. row_start p = None) xs \<Longrightarrow> table_rows (xs @ rest) = table_rows rest"
  by (induction xs) simp_all

lemma head_no_row: "list_all (\<lambda>p. row_start p = None) (html_head chapter_title)"
  by (simp add: html_head_def row_start_def str_def)

lemma foot_no_row: "table_rows [html_foot] = []"
  by (simp add: html_foot_def row_start_def str_def)

lemma cell_is_cell: "is_cell (str ''<td>'' @ x)"
  by (simp add: is_cell_def str_def)

lemma cell_no_row: "row_start (str ''<td>'' @ x) = None"
  by (simp add: row_start_def str_def)

lemma cells_no_row: "list_all (\<lambda>p. row_start p = None) (map (\<lambda>a. str ''<td>'' @ f a) g)"
  by (induction g) (simp_all add: cell_no_row)

lemma cells_taken:
  "\<not> is_cell y \<Longrightarrow> takeWhile is_cell (map (\<lambda>a. str ''<td>'' @ f a) g @ y # ys)
                       = map (\<lambda>a. str ''<td>'' @ f a) g"
  by (induction g) (simp_all add: cell_is_cell)

lemma row_step:
  assumes "row_start y = Some k" and "\<not> is_cell z"
  shows "table_rows (y # map (\<lambda>a. str ''<td>'' @ f a) g @ z # zs) = (k, length g) # table_rows (z # zs)"
proof -
  have "table_rows (map (\<lambda>a. str ''<td>'' @ f a) g @ z # zs) = table_rows (z # zs)"
    by (rule table_rows_skip [OF cells_no_row])
  with assms show ?thesis by (simp add: cells_taken)
qed

lemma table_rows_block:
  "table_rows (block_lines g @ rest)
     = [(Original, length g), (Phonetic, length g), (Gloss, length g)] @ table_rows rest"
proof -
  have s: "row_start (str ''<div class='segment-block'><table class='chapter-table'>'') = None"
    "row_start (str ''<tr class='chinese-row'>'') = Some Original"
    "row_start (str ''</tr><tr class='pinyin-row'>'') = Some Phonetic"
    "row_start (str ''</tr><tr class='translation-row'>'') = Some Gloss"
    "row_start (str ''</tr></table></div>'') = None"
    by (simp_all add: row_start_def str_def)
  have c: "\<not> is_cell (str ''</tr><tr class='pinyin-row'>'')"
    "\<not> is_cell (str ''</tr><tr class='translation-row'>'')"
    "\<not> is_cell (str ''</tr></table></div>'')"
    by (simp_all add: is_cell_def str_def)
  have e: "table_rows (str ''</tr></table></div>'' # rest) = table_rows rest"
    by (simp add: s)
  have f: "block_lines g @ rest
     = str ''<div class='segment-block'><table class='chapter-table'>''
       # str ''<tr class='chinese-row'>''
       # map (\<lambda>a. str ''<td>'' @ (if blank (zh a) then [160] else zh a) @ str ''</td>'') g
       @ str ''</tr><tr class='pinyin-row'>''
       # map (\<lambda>a. str ''<td>'' @ (if blank (py a) then [160] else py a) @ str ''</td>'') g
       @ str ''</tr><tr class='translation-row'>''
       # map (\<lambda>a. str ''<td>'' @ (if blank (trans_text a) then [160] else trans_text a) @ str ''</td>'') g
       @ str ''</tr></table></div>'' # rest"
    unfolding block_lines_def by simp
  have d: "table_rows (str ''<div class='segment-block'><table class='chapter-table'>'' # xs)
             = table_rows xs" for xs
    by (simp add: s)
  show ?thesis
    by (simp only: f d row_step [OF s(2) c(1)] row_step [OF s(3) c(2)] row_step [OF s(4) c(3)] e
        append.simps)
qed

lemma table_rows_groups:
  "table_rows (concat (map block_lines gs) @ rest)
     = concat (map (\<lambda>g. [(Original, length g), (Phonetic, length g), (Gloss, length g)]) gs)
       @ table_rows rest"
  by (induction gs) (simp_all add: table_rows_block)

lemma table_rows_parts:
  "table_rows (html_parts_of data chapter_title)
     = concat (map (\<lambda>g. [(Original, length g), (Phonetic, length g), (Gloss, length g)])
                 (paragraph_groups data))"
  by (simp only: html_parts_groups table_rows_skip [OF head_no_row] table_rows_groups
      foot_no_row append_Nil2)

text \<open>
  C9.  The page the renderer returns is the lines of the head, of one block for every
  paragraph of the stream, and of the foot, joined by newlines.  Read back from the
  emitted parts, every block has a row of originals, a row of transcriptions and a row
  of glosses, in this order, and each of the three holds as many cells as the
  paragraph has annotations.  In the loop the three buffers always have the same
  length: an annotation appends one entry to each, and a break that finds them
  non-empty emits the block and resets all three.
\<close>

theorem rows_have_equal_cells:
  "table_rows (html_parts_of annotated_chapter_data chapter_title)
     = concat (map (\<lambda>g. [(Original, length g), (Phonetic, length g), (Gloss, length g)])
                 (paragraph_groups annotated_chapter_data))
   \<and> html_parts_of annotated_chapter_data chapter_title
     = html_head chapter_title
       @ concat (map block_lines (paragraph_groups annotated_chapter_data))
       @ [html_foot]
   \<and> generate_chapter_html_output annotated_chapter_data chapter_title
     = str_join [NL]
         (html_head chapter_title
          @ concat (map block_lines (paragraph_groups annotated_chapter_data))
          @ [html_foot])
   \<and> list_all (\<lambda>g. g \<noteq> [] \<and> list_all is_annotation g) (paragraph_groups annotated_chapter_data)
   \<and> length (fst (snd (render_loop annotated_chapter_data chapter_title)))
       = length (fst (snd (snd (render_loop annotated_chapter_data chapter_title))))
   \<and> length (fst (snd (snd (render_loop annotated_chapter_data chapter_title))))
       = length (snd (snd (snd (render_loop annotated_chapter_data chapter_title))))
   \<and> render_item (html_parts, zhs, pys, transs) (Annotation z p t)
       = (html_parts, zhs @ [z], pys @ [p], transs @ [t])
   \<and> render_item (html_parts, z # zhs, pys, transs) PARAGRAPH_BREAK
       = (html_parts @ paragraph_block (z # zhs) pys transs, [], [], [])"
proof -
  have b: "list_all (\<lambda>g. g \<noteq> [] \<and> list_all is_annotation g)
             (paragraph_groups annotated_chapter_data)"
    unfolding paragraph_groups_def by (rule groups_from_wf) simp
  have c: "length (fst (snd (render_loop annotated_chapter_data chapter_title)))
       = length (fst (snd (snd (render_loop annotated_chapter_data chapter_title))))
   \<and> length (fst (snd (snd (render_loop annotated_chapter_data chapter_title))))
       = length (snd (snd (snd (render_loop annotated_chapter_data chapter_title))))"
    unfolding render_loop_def by (rule buffers_in_step) simp_all
  have d: "generate_chapter_html_output annotated_chapter_data chapter_title
     = str_join [NL]
         (html_head chapter_title
          @ concat (map block_lines (paragraph_groups annotated_chapter_data))
          @ [html_foot])"
    by (simp only: generate_chapter_html_output_def html_parts_groups)
  from table_rows_parts html_parts_groups b c d show ?thesis by simp
qed

text \<open>
  C7.  When the stream ends with annotations that no break follows (after the start of
  the stream or after a break), the renderer still emits their block, last before the
  foot: the page has one block more than the page of the stream before them, and the
  lines of that block are its last lines before the foot.  A stream of breaks alone
  gives the head and the foot and no block.  In general the renderer emits as many
  blocks as the stream has paragraphs.
\<close>

theorem final_block_and_breaks:
  "(anns \<noteq> [] \<and> list_all is_annotation anns \<and> (pre = [] \<or> last pre = PARAGRAPH_BREAK) \<longrightarrow>
      emitted_blocks (html_parts_of (pre @ anns) chapter_title)
        = emitted_blocks (html_parts_of pre chapter_title) + 1
      \<and> html_parts_of (pre @ anns) chapter_title
        = butlast (html_parts_of pre chapter_title) @ block_lines anns @ [html_foot]
      \<and> generate_chapter_html_output (pre @ anns) chapter_title
        = str_join [NL] (butlast (html_parts_of pre chapter_title) @ block_lines anns @ [html_foot])
      \<and> paragraph_groups (pre @ anns) = paragraph_groups pre @ [anns])
   \<and> emitted_blocks (html_parts_of (replicate n PARAGRAPH_BREAK) chapter_title) = 0
   \<and> html_parts_of (replicate n PARAGRAPH_BREAK) chapter_title
        = html_head chapter_title @ [html_foot]
   \<and> generate_chapter_html_output (replicate n PARAGRAPH_BREAK) chapter_title
        = str_join [NL] (html_head chapter_title @ [html_foot])
   \<and> paragraph_groups (replicate n PARAGRAPH_BREAK) = []
   \<and> emitted_blocks (html_parts_of annotated_chapter_data chapter_title)
        = length (paragraph_groups annotated_chapter_data)"
proof -
  have b: "paragraph_groups (replicate n PARAGRAPH_BREAK) = []"
    by (simp add: paragraph_groups_def groups_from_breaks)
  have bl: "butlast (html_parts_of pre chapter_title)
              = html_head chapter_title @ concat (map block_lines (paragraph_groups pre))"
    by (simp add: html_parts_groups butlast_append)
  have A: "emitted_blocks (html_parts_of (pre @ anns) chapter_title)
        = emitted_blocks (html_parts_of pre chapter_title) + 1
      \<and> html_parts_of (pre @ anns) chapter_title
        = butlast (html_parts_of pre chapter_title) @ block_lines anns @ [html_foot]
      \<and> generate_chapter_html_output (pre @ anns) chapter_title
        = str_join [NL] (butlast (html_parts_of pre chapter_title) @ block_lines anns @ [html_foot])
      \<and> paragraph_groups (pre @ anns) = paragraph_groups pre @ [anns]"
    if h: "anns \<noteq> []" "list_all is_annotation anns" "pre = [] \<or> last pre = PARAGRAPH_BREAK"
  proof -
    note g = groups_snoc_annotations [OF h]
    have p: "html_parts_of (pre @ anns) chapter_title
        = butlast (html_parts_of pre chapter_title) @ block_lines anns @ [html_foot]"
      by (simp add: html_parts_groups [of "pre @ anns"] bl g)
    have o: "generate_chapter_html_output (pre @ anns) chapter_title
        = str_join [NL] (butlast (html_parts_of pre chapter_title) @ block_lines anns @ [html_foot])"
      by (simp only: generate_chapter_html_output_def p)
    have e: "emitted_blocks (html_parts_of (pre @ anns) chapter_title)
        = emitted_blocks (html_parts_of pre chapter_title) + 1"
      by (simp add: emitted_blocks_parts g)
    from e p o g show ?thesis by simp
  qed
  have B: "html_parts_of (replicate n PARAGRAPH_BREAK) chapter_title
        = html_head chapter_title @ [html_foot]"
    by (simp add: html_parts_groups b)
  have C: "generate_chapter_html_output (replicate n PARAGRAPH_BREAK) chapter_title
        = str_join [NL] (html_head chapter_title @ [html_foot])"
    by (simp only: generate_chapter_html_output_def B)
  have D: "emitted_blocks (html_parts_of (replicate n PARAGRAPH_BREAK) chapter_title) = 0"
    by (simp add: emitted_blocks_parts b)
  from A have A': "anns \<noteq> [] \<and> list_all is_annotation anns \<and> (pre = [] \<or> last pre = PARAGRAPH_BREAK) \<longrightarrow>
      emitted_blocks (html_parts_of (pre @ anns) chapter_title)
        = emitted_blocks (html_parts_of pre chapter_title) + 1
      \<and> html_parts_of (pre @ anns) chapter_title
        = butlast (html_parts_of pre chapter_title) @ block_lines anns @ [html_foot]
      \<and> generate_chapter_html_output (pre @ anns) chapter_title
        = str_join [NL] (butlast (html_parts_of pre chapter_title) @ block_lines anns @ [html_foot])
      \<and> paragraph_groups (pre @ anns) = paragraph_groups pre @ [anns]"
    by blast
  show ?thesis
    by (rule conjI [OF A' conjI [OF D conjI [OF B conjI [OF C conjI [OF b emitted_blocks_parts]]]]])
qed

text \<open>A break followed by one annotation whose gloss is blank: one block, whose
  lines come last before the foot.  Two breaks: no block.\<close>

theorem final_block_and_breaks_witness:
  "emitted_blocks (html_parts_of [PARAGRAPH_BREAK, Annotation [20320] (str ''ni'') (str '' '')] (str ''t'')) = 1
   \<and> html_parts_of [PARAGRAPH_BREAK, Annotation [20320] (str ''ni'') (str '' '')] (str ''t'')
     = html_head (str ''t'')
       @ [str ''<div class='segment-block'><table class='chapter-table'>'',
          str ''<tr class='chinese-row'>'',
          str ''<td>'' @ [20320] @ str ''</td>'',
          str ''</tr><tr class='pinyin-row'>'',
          str ''<td>ni</td>'',
          str ''</tr><tr class='translation-row'>'',
          str ''<td>'' @ [160] @ str ''</td>'',
          str ''</tr></table></div>'',
          str ''</body></html>'']
   \<and> emitted_blocks (html_parts_of [PARAGRAPH_BREAK, PARAGRAPH_BREAK] (str ''t'')) = 0
   \<and> html_parts_of [PARAGRAPH_BREAK, PARAGRAPH_BREAK] (str ''t'')
     = html_head (str ''t'') @ [str ''</body></html>'']"
proof -
  have h: "[Annotation [20320] (str ''ni'') (str '' '')] \<noteq> []
           \<and> list_all is_annotation [Annotation [20320] (str ''ni'') (str '' '')]
           \<and> ([PARAGRAPH_BREAK] = [] \<or> last [PARAGRAPH_BREAK] = PARAGRAPH_BREAK)"
    by (simp add: is_annotation_def)
  note A = final_block_and_breaks [where pre = "[PARAGRAPH_BREAK]" and n = 1
      and chapter_title = "str ''t''", THEN conjunct1, THEN mp, OF h]
  note B = final_block_and_breaks [where n = 1 and chapter_title = "str ''t''", THEN conjunct2]
  note C = final_block_and_breaks [where n = 2 and chapter_title = "str ''t''", THEN conjunct2]
  have s: "blank (str '' '')" "\<not> blank [20320]" "\<not> blank (str ''ni'')"
    by (simp_all add: blank_def strip_def isspace_def str_def)
  have l: "block_lines [Annotation [20320] (str ''ni'') (str '' '')]
     = [str ''<div class='segment-block'><table class='chapter-table'>'',
          str ''<tr class='chinese-row'>'',
          str ''<td>'' @ [20320] @ str ''</td>'',
          str ''</tr><tr class='pinyin-row'>'',
          str ''<td>ni</td>'',
          str ''</tr><tr class='translation-row'>'',
          str ''<td>'' @ [160] @ str ''</td>'',
          str ''</tr></table></div>'']"
    by (simp add: block_lines_def s) (simp add: str_def)
  have r1: "replicate 1 PARAGRAPH_BREAK = [PARAGRAPH_BREAK]"
    and r2: "replicate 2 PARAGRAPH_BREAK = [PARAGRAPH_BREAK, PARAGRAPH_BREAK]"
    by (simp_all add: numeral_2_eq_2)
  note B1 = B [THEN conjunct1, unfolded r1] and B2 = B [THEN conjunct2, THEN conjunct1, unfolded r1]
  note C1 = C [THEN conjunct1, unfolded r2] and C2 = C [THEN conjunct2, THEN conjunct1, unfolded r2]
  have e: "emitted_blocks (html_parts_of [PARAGRAPH_BREAK, Annotation [20320] (str ''ni'') (str '' '')] (str ''t'')) = 1"
    using A [THEN conjunct1] B1 by simp
  have q: "html_parts_of [PARAGRAPH_BREAK, Annotation [20320] (str ''ni'') (str '' '')] (str ''t'')
     = html_head (str ''t'')
       @ block_lines [Annotation [20320] (str ''ni'') (str '' '')] @ [html_foot]"
    using A [THEN conjunct2, THEN conjunct1] by (simp add: B2)
  have q': "html_parts_of [PARAGRAPH_BREAK, Annotation [20320] (str ''ni'') (str '' '')] (str ''t'')
     = html_head (str ''t'')
       @ [str ''<div class='segment-block'><table class='chapter-table'>'',
          str ''<tr class='chinese-row'>'',
          str ''<td>'' @ [20320] @ str ''</td>'',
          str ''</tr><tr class='pinyin-row'>'',
          str ''<td>ni</td>'',
          str ''</tr><tr class='translation-row'>'',
          str ''<td>'' @ [160] @ str ''</td>'',
          str ''</tr></table></div>'',
          str ''</body></html>'']"
    by (simp only: q l html_foot_def append.simps)
  show ?thesis
    by (rule conjI [OF e conjI [OF q' conjI [OF C1 C2 [unfolded html_foot_def]]]])
qed

text \<open>Two annotations, a break and one more annotation: two blocks, of three rows of
  two cells and of three rows of one cell.\<close>

theorem rows_have_equal_cells_witness:
  "table_rows (html_parts_of [Annotation [20320] (str ''ni'') (str ''you''),
                              Annotation [22909] (str ''hao'') (str ''good''),
                              PARAGRAPH_BREAK,
                              Annotation [21527] (str ''ma'') (str '' '')] (str ''t''))
     = [(Original, 2), (Phonetic, 2), (Gloss, 2), (Original, 1), (Phonetic, 1), (Gloss, 1)]
   \<and> generate_chapter_html_output [Annotation [20320] (str ''ni'') (str ''you''), PARAGRAPH_BREAK] (str ''t'')
     = str_join [NL]
         (html_head (str ''t'')
          @ [str ''<div class='segment-block'><table class='chapter-table'>'',
             str ''<tr class='chinese-row'>'',
             str ''<td>'' @ [20320] @ str ''</td>'',
             str ''</tr><tr class='pinyin-row'>'',
             str ''<td>ni</td>'',
             str ''</tr><tr class='translation-row'>'',
             str ''<td>you</td>'',
             str ''</tr></table></div>'',
             str ''</body></html>''])"
proof -
  note A = rows_have_equal_cells [where chapter_title = "str ''t''"
      and annotated_chapter_data = "[Annotation [20320] (str ''ni'') (str ''you''),
                              Annotation [22909] (str ''hao'') (str ''good''),
                              PARAGRAPH_BREAK,
                              Annotation [21527] (str ''ma'') (str '' '')]", THEN conjunct1]
  note B = rows_have_equal_cells [where chapter_title = "str ''t''"
      and annotated_chapter_data = "[Annotation [20320] (str ''ni'') (str ''you''), PARAGRAPH_BREAK]",
      THEN conjunct2, THEN conjunct2, THEN conjunct1]
  have s: "\<not> blank (str ''you'')" "\<not> blank [20320]" "\<not> blank (str ''ni'')"
    by (simp_all add: blank_def strip_def isspace_def str_def)
  have l: "block_lines [Annotation [20320] (str ''ni'') (str ''you'')]
     = [str ''<div class='segment-block'><table class='chapter-table'>'',
          str ''<tr class='chinese-row'>'',
          str ''<td>'' @ [20320] @ str ''</td>'',
          str ''</tr><tr class='pinyin-row'>'',
          str ''<td>ni</td>'',
          str ''</tr><tr class='translation-row'>'',
          str ''<td>you</td>'',
          str ''</tr></table></div>'']"
    by (simp add: block_lines_def s) (simp add: str_def)
  from A B show ?thesis
    by (simp add: paragraph_groups_def l html_foot_def)
qed

section \<open>Parsing page file names\<close>

lemma literal_sound: "literal lit s = Some r \<Longrightarrow> \<exists>a. s = a @ r \<and> ci_literal lit a"
proof (induction lit s rule: literal.induct)
  case (1 s)
  then show ?case by (simp add: ci_literal_def)
next
  case (2 p ps)
  then show ?case by simp
next
  case (3 p ps c cs)
  then have ci: "ci_char p c" and l: "literal ps cs = Some r" by (auto split: if_splits)
  from 3(1) [OF ci l] obtain a where "cs = a @ r" "ci_literal ps a" by blast
  with ci have "c # cs = (c # a) @ r \<and> ci_literal (p # ps) (c # a)" by (simp add: ci_literal_def)
  then show ?case by blast
qed

lemma literal_complete: "ci_literal lit a \<Longrightarrow> literal lit (a @ r) = Some r"
  unfolding ci_literal_def by (induction lit a rule: list_all2_induct) auto

lemma digits1_sound:
  "digits1 U s = Some (g, r) \<Longrightarrow> s = g @ r \<and> g \<noteq> [] \<and> list_all (isdecimal U) g"
  by (auto simp: digits1_def list_all_iff split: if_splits dest: set_takeWhileD)

lemma digits1_complete:
  assumes "g \<noteq> []" and "list_all (isdecimal U) g" and "r = [] \<or> \<not> isdecimal U (hd r)"
  shows "digits1 U (g @ r) = Some (g, r)"
proof -
  have t: "takeWhile (isdecimal U) r = []" using assms(3) by (cases r) auto
  have d: "dropWhile (isdecimal U) r = r" using assms(3) by (cases r) auto
  have "takeWhile (isdecimal U) (g @ r) = g"
    using assms(2) t by (simp add: takeWhile_append2 list_all_iff)
  moreover have "dropWhile (isdecimal U) (g @ r) = r"
    using assms(2) d by (simp add: dropWhile_append2 list_all_iff)
  ultimately show ?thesis using assms(1) by (simp add: digits1_def)
qed

lemma underscore_no_digit: "\<not> isdecimal U 95" and dot_no_digit: "\<not> isdecimal U 46"
  by (simp_all add: isdecimal_def decimal_def)

lemma ci_literal_hd:
  "ci_literal (p # ps) b \<Longrightarrow> of_char p < (97::nat) \<Longrightarrow> b \<noteq> [] \<and> hd b = of_char p"
  by (cases b) (auto simp: ci_literal_def ci_char_def)

lemma trim_fixed:
  assumes "s \<noteq> []" and "\<not> P (hd s)" and "\<not> P (last s)"
  shows "rev (dropWhile P (rev (dropWhile P s))) = s"
proof -
  from assms(1,2) have a: "dropWhile P s = s" by (cases s) auto
  from assms(1,3) have b: "dropWhile P (rev s) = rev s"
    by (cases "rev s") (auto simp: last_rev[symmetric] hd_rev)
  show ?thesis by (simp add: a b)
qed

lemma decimal_not_space: "isdecimal U c \<Longrightarrow> \<not> isspace c"
  by (auto simp: isdecimal_def decimal_def isspace_def split: if_splits)

lemma decimal_not_sign: "isdecimal U c \<Longrightarrow> c \<noteq> 45 \<and> c \<noteq> 43 \<and> c \<noteq> 95"
  by (auto simp: isdecimal_def decimal_def split: if_splits)

lemma int_strip_digits:
  assumes "p \<noteq> []" and "list_all (isdecimal U) p"
  shows "int_strip p = p"
proof -
  from assms have "isdecimal U (hd p)" "isdecimal U (last p)" by (auto simp: list_all_iff)
  then have "\<not> int_space (hd p)" "\<not> int_space (last p)"
    by (auto simp: int_space_def dest: decimal_not_space)
  with assms(1) show ?thesis unfolding int_strip_def by (rule trim_fixed)
qed

lemma int_digits_value:
  "list_all (isdecimal U) p \<Longrightarrow>
   int_digits U acc p
     = Some (foldl (\<lambda>acc c. 10 * acc + (case decimal U c of Some d \<Rightarrow> d | None \<Rightarrow> 0)) acc p)"
proof (induction U acc p rule: int_digits.induct)
  case (1 U acc)
  then show ?case by simp
next
  case (2 U acc c)
  then show ?case by (auto simp: isdecimal_def)
next
  case (3 U acc c c' cs)
  from 3(3) have c: "isdecimal U c" and c': "isdecimal U c'" and r: "list_all (isdecimal U) (c' # cs)"
    by simp_all
  from c obtain d where d: "decimal U c = Some d" by (auto simp: isdecimal_def)
  from c' have n: "c' \<noteq> 95" by (simp add: decimal_not_sign)
  from 3(2) [OF d n r] d n show ?case by simp
qed

lemma digits_no_underscore:
  "list_all (isdecimal U) p \<Longrightarrow> filter (\<lambda>c. c \<noteq> 95) p = p"
  by (induction p) (auto simp: underscore_no_digit)

lemma py_int_digits:
  assumes "p \<noteq> []" and "list_all (isdecimal U) p"
  shows "py_int U p
           = (if exceeds_digit_limit U p then None else Some (int (decimal_number U p)))"
proof -
  from assms obtain c cs where p: "p = c # cs" by (cases p) auto
  with assms(2) have "isdecimal U c" by simp
  then have s: "c \<noteq> 45" "c \<noteq> 43" by (simp_all add: decimal_not_sign)
  have "int_body U p
          = (if exceeds_digit_limit U p then None else Some (decimal_number U p))"
    using assms(1) int_digits_value [OF assms(2), of 0]
    by (simp add: int_body_def decimal_number_def)
  then show ?thesis
    using int_strip_digits [OF assms] s by (simp add: py_int_def p)
qed

lemma match_sound:
  assumes "match_page_pattern U s = Some (v, c, p)"
  shows "pattern_match U s v c p"
proof -
  from assms obtain r1 r2 r3 r4 r5 r6 r7 where
    l1: "literal ''volume'' s = Some r1" and d1: "digits1 U r1 = Some (v, r2)"
    and l2: "literal ''_chapter'' r2 = Some r3" and d2: "digits1 U r3 = Some (c, r4)"
    and l3: "literal ''_'' r4 = Some r5" and d3: "digits1 U r5 = Some (p, r6)"
    and l4: "literal ''.html'' r6 = Some r7"
    by (auto simp: match_page_pattern_def split: Option.bind_splits)
  from literal_sound [OF l1] obtain a where a: "s = a @ r1" "ci_literal ''volume'' a" by blast
  from literal_sound [OF l2] obtain b where b: "r2 = b @ r3" "ci_literal ''_chapter'' b" by blast
  from literal_sound [OF l3] obtain u where u: "r4 = u @ r5" "ci_literal ''_'' u" by blast
  from literal_sound [OF l4] obtain d where d: "r6 = d @ r7" "ci_literal ''.html'' d" by blast
  from u(2) have u95: "u = [95]"
    by (cases u) (auto simp: ci_literal_def ci_char_def)
  note D1 = digits1_sound [OF d1] and D2 = digits1_sound [OF d2] and D3 = digits1_sound [OF d3]
  have "s = a @ v @ b @ c @ [95] @ p @ d @ r7"
    using a(1) b(1) u(1) d(1) u95 D1 D2 D3 by simp
  with a(2) b(2) d(2) D1 D2 D3 show ?thesis unfolding pattern_match_def by blast
qed

lemma match_complete:
  assumes "pattern_match U s v c p"
  shows "match_page_pattern U s = Some (v, c, p)"
proof -
  from assms obtain a b d rest where
    s: "s = a @ v @ b @ c @ [95] @ p @ d @ rest"
    and a: "ci_literal ''volume'' a" and b: "ci_literal ''_chapter'' b" and d: "ci_literal ''.html'' d"
    and v: "v \<noteq> []" "list_all (isdecimal U) v"
    and c: "c \<noteq> []" "list_all (isdecimal U) c"
    and p: "p \<noteq> []" "list_all (isdecimal U) p"
    unfolding pattern_match_def by blast
  from ci_literal_hd [OF b] have hb: "b \<noteq> []" "hd b = 95" by simp_all
  from ci_literal_hd [OF d] have hd: "d \<noteq> []" "hd d = 46" by simp_all
  have l1: "literal ''volume'' s = Some (v @ b @ c @ [95] @ p @ d @ rest)"
    unfolding s by (rule literal_complete [OF a])
  have d1: "digits1 U (v @ b @ c @ [95] @ p @ d @ rest) = Some (v, b @ c @ [95] @ p @ d @ rest)"
    using v hb by (intro digits1_complete) (simp_all add: underscore_no_digit)
  have l2: "literal ''_chapter'' (b @ c @ [95] @ p @ d @ rest) = Some (c @ [95] @ p @ d @ rest)"
    by (rule literal_complete [OF b])
  have d2: "digits1 U (c @ [95] @ p @ d @ rest) = Some (c, [95] @ p @ d @ rest)"
    using c by (intro digits1_complete) (simp_all add: underscore_no_digit)
  have l3: "literal ''_'' ([95] @ p @ d @ rest) = Some (p @ d @ rest)"
    by (simp add: ci_char_def)
  have d3: "digits1 U (p @ d @ rest) = Some (p, d @ rest)"
    using p hd by (intro digits1_complete) (simp_all add: dot_no_digit)
  have l4: "literal ''.html'' (d @ rest) = Some rest"
    by (rule literal_complete [OF d])
  show ?thesis
    unfolding match_page_pattern_def
    by (simp only: l1 d1 l2 d2 l3 d3 l4 Option.bind.simps prod.case)
qed

lemma pattern_match_digits:
  "pattern_match U s v c p \<Longrightarrow> p \<noteq> [] \<and> list_all (isdecimal U) p \<and> length p \<le> length s"
  unfolding pattern_match_def by auto

lemma match_page_int:
  "match_page_pattern U s = Some (v, c, p) \<Longrightarrow>
   py_int U p = (if exceeds_digit_limit U p then None else Some (int (decimal_number U p)))"
  using py_int_digits [of p U] pattern_match_digits [OF match_sound] by simp

lemma short_name_within_limit:
  assumes "match_page_pattern U s = Some (v, c, p)"
    and "int_max_str_digits U = 0 \<or> length s \<le> int_max_str_digits U"
  shows "\<not> exceeds_digit_limit U p"
proof -
  from pattern_match_digits [OF match_sound [OF assms(1)]] have "length p \<le> length s" by simp
  moreover have "length (filter (\<lambda>c. c \<noteq> 95) p) \<le> length p" by (rule length_filter_le)
  ultimately show ?thesis using assms(2) unfolding exceeds_digit_limit_def by linarith
qed


text \<open>
  C10, as the code has it.  When the regular expression matches, the captured page
  field is a non-empty string of decimal digits, and \<open>int\<close> succeeds on it unless it
  has more digits than the interpreter converts; then \<open>int\<close> raises \<open>ValueError\<close> and
  line 67 warns and drops the file.  For a name no longer than the bound (4300 by
  default and never under 640, where file systems allow 255 bytes) the branch is not
  taken: parsing gives no result exactly when the name does not match.
\<close>

theorem page_number_parses_within_limit:
  "(match_page_pattern U (basename filename) = Some (volume, chapter, page_str) \<longrightarrow>
      py_int U page_str
        = (if exceeds_digit_limit U page_str then None
           else Some (int (decimal_number U page_str)))
      \<and> parse_filename U filename
          = (if exceeds_digit_limit U page_str then None
             else Some (volume, chapter, int (decimal_number U page_str), page_str)))
   \<and> (int_max_str_digits U = 0 \<or> length (basename filename) \<le> int_max_str_digits U \<longrightarrow>
        (parse_filename U filename = None) = (match_page_pattern U (basename filename) = None))"
proof -
  have A: "parse_filename U filename
          = (if exceeds_digit_limit U page_str then None
             else Some (volume, chapter, int (decimal_number U page_str), page_str))"
    if h: "match_page_pattern U (basename filename) = Some (volume, chapter, page_str)"
    using match_page_int [OF h] by (simp add: parse_filename_def h)
  have B: "(parse_filename U filename = None) = (match_page_pattern U (basename filename) = None)"
    if l: "int_max_str_digits U = 0 \<or> length (basename filename) \<le> int_max_str_digits U"
  proof (cases "match_page_pattern U (basename filename)")
    case None
    then show ?thesis by (simp add: parse_filename_def)
  next
    case (Some r)
    obtain v c p where r: "r = (v, c, p)" by (cases r)
    from Some r have m: "match_page_pattern U (basename filename) = Some (v, c, p)" by simp
    from short_name_within_limit [OF m l] match_page_int [OF m] m
    show ?thesis by (simp add: parse_filename_def)
  qed
  from A B match_page_int show ?thesis by blast
qed




lemma sample_fullwidth_name:
  "pattern_match sample_interpreter
     (basename (str ''data/volume'' @ [65297] @ str ''_chapter2_07.html'')) [65297] [50] [48, 55]"
  unfolding pattern_match_def
  apply (rule exI [of _ "str ''volume''"])
  apply (rule exI [of _ "str ''_chapter''"])
  apply (rule exI [of _ "str ''.html''"])
  apply (rule exI [of _ "[]"])
  apply (simp add: str_def basename_def ci_literal_def ci_char_def isdecimal_def decimal_def
      isspace_def sample_interpreter_def)
  done

text \<open>A name with a fullwidth digit one as its volume and \<open>07\<close> as its page.\<close>

theorem page_number_parses_within_limit_witness:
  "py_int sample_interpreter [48, 55] = Some 7
   \<and> parse_filename sample_interpreter (str ''data/volume'' @ [65297] @ str ''_chapter2_07.html'')
       = Some ([65297], [50], 7, [48, 55])"
proof -
  have n: "decimal_number sample_interpreter [48, 55] = 7"
    by (simp add: decimal_number_def decimal_def)
  have l: "\<not> exceeds_digit_limit sample_interpreter [48, 55]"
    by (simp add: exceeds_digit_limit_def sample_interpreter_def)
  note A = page_number_parses_within_limit [THEN conjunct1, THEN mp,
      OF match_complete [OF sample_fullwidth_name]]
  from A n l show ?thesis by simp
qed

lemma basename_plain: "47 \<notin> set s \<Longrightarrow> basename s = s"
proof -
  assume "47 \<notin> set s"
  then have "takeWhile (\<lambda>c. c \<noteq> 47) (rev s) = rev s"
    by (auto simp: takeWhile_eq_all_conv)
  then show ?thesis unfolding basename_def by (simp only: rev_rev_ident)
qed

lemma long_name_matches:
  "pattern_match sample_interpreter (str ''volume1_chapter1_'' @ replicate 4301 49 @ str ''.html'')
     [49] [49] (replicate 4301 49)"
  unfolding pattern_match_def
  apply (rule exI [of _ "str ''volume''"])
  apply (rule exI [of _ "str ''_chapter''"])
  apply (rule exI [of _ "str ''.html''"])
  apply (rule exI [of _ "[]"])
  apply (simp add: str_def ci_literal_def ci_char_def isdecimal_def decimal_def list_all_iff)
  done

text \<open>
  C10 as stated fails on \<open>volume1_chapter1_\<close>, 4301 times the digit \<open>1\<close>, \<open>.html\<close>
  under the default bound of 4300 digits: the regular expression matches, \<open>int\<close>
  raises \<open>ValueError\<close> on the page field, and \<open>parse_filename\<close> returns \<open>None\<close>.
\<close>

theorem long_page_field_counterexample:
  "match_page_pattern sample_interpreter
       (basename (str ''volume1_chapter1_'' @ replicate 4301 49 @ str ''.html''))
     = Some ([49], [49], replicate 4301 49)
   \<and> py_int sample_interpreter (replicate 4301 49) = None
   \<and> parse_filename sample_interpreter (str ''volume1_chapter1_'' @ replicate 4301 49 @ str ''.html'')
       = None"
proof -
  have b: "basename (str ''volume1_chapter1_'' @ replicate 4301 49 @ str ''.html'')
             = str ''volume1_chapter1_'' @ replicate 4301 49 @ str ''.html''"
    by (rule basename_plain) (simp add: str_def)
  have m: "match_page_pattern sample_interpreter
             (str ''volume1_chapter1_'' @ replicate 4301 49 @ str ''.html'')
           = Some ([49], [49], replicate 4301 49)"
    by (rule match_complete [OF long_name_matches])
  have d: "list_all (isdecimal sample_interpreter) (replicate 4301 49)"
    by (simp add: list_all_iff isdecimal_def decimal_def)
  have e: "exceeds_digit_limit sample_interpreter (replicate 4301 49)"
    by (simp add: exceeds_digit_limit_def sample_interpreter_def digits_no_underscore [OF d])
  have i: "py_int sample_interpreter (replicate 4301 49) = None"
    using match_page_int [OF m] e by simp
  show ?thesis by (simp add: b m i parse_filename_def)
qed

section \<open>What a chapter and a run do to the files\<close>

lemma attempts_files: "files (snd (translation_attempts E segment attempt w)) = files w"
proof (induction "ONLINE_TRANSLATION_MAX_RETRIES + 1 - attempt" arbitrary: attempt w)
  case 0
  then have "ONLINE_TRANSLATION_MAX_RETRIES + 1 \<le> attempt" by simp
  then show ?case by (subst translation_attempts.simps) simp
next
  case (Suc n)
  then have le: "\<not> ONLINE_TRANSLATION_MAX_RETRIES + 1 \<le> attempt" by simp
  have n: "n = ONLINE_TRANSLATION_MAX_RETRIES + 1 - (attempt + 1)" using Suc.hyps(2) by simp
  have ih: "\<And>w'. files (snd (translation_attempts E segment (Suc attempt) w')) = files w'"
    using Suc.hyps(1) [OF n] by simp
  obtain r p' where t: "translate E (provider w) segment = (r, p')"
    by (cases "translate E (provider w) segment")
  show ?case
    using le
    by (subst translation_attempts.simps)
       (simp add: t ih sleep_def emit_def Let_def split: response.splits)
qed

lemma get_online_translation_files:
  "files (snd (get_online_translation E segment tr w)) = files w"
  by (simp add: get_online_translation_def attempts_files)

lemma annotate_segments_files:
  "files (snd (annotate_segments E tr segments w)) = files w"
proof (induction segments arbitrary: w)
  case Nil
  then show ?case by simp
next
  case (Cons seg segments)
  show ?case
  proof (cases "strip seg = []")
    case True
    then show ?thesis by (simp add: Cons)
  next
    case False
    obtain english_text w1 where g: "get_online_translation E (strip seg) tr (emit (Transcribe (strip seg)) w) = (english_text, w1)"
      by (cases "get_online_translation E (strip seg) tr (emit (Transcribe (strip seg)) w)")
    have f1: "files w1 = files w"
      using get_online_translation_files [of E "strip seg" tr "emit (Transcribe (strip seg)) w"] g
      by (simp add: emit_def)
    obtain annotations w2 where a: "annotate_segments E tr segments w1 = (annotations, w2)"
      by (cases "annotate_segments E tr segments w1")
    have "files w2 = files w1" using Cons [of w1] a by simp
    with f1 False g a show ?thesis by (simp add: Let_def)
  qed
qed

lemma annotate_paragraphs_files:
  "files (snd (annotate_paragraphs E tr paragraphs w)) = files w"
proof (induction paragraphs arbitrary: w)
  case Nil
  then show ?case by simp
next
  case (Cons para paragraphs)
  show ?case
  proof (cases "strip para = []")
    case True
    then show ?thesis by (simp add: Cons)
  next
    case False
    show ?thesis
    proof (cases "jieba_cut E para")
      case (Inl e)
      with False show ?thesis by (simp add: emit_def)
    next
      case (Inr segments)
      obtain annotations w1 where a: "annotate_segments E tr segments (emit (Tokenize para) w) = (annotations, w1)"
        by (cases "annotate_segments E tr segments (emit (Tokenize para) w)")
      have f1: "files w1 = files w"
        using annotate_segments_files [of E tr segments "emit (Tokenize para) w"] a
        by (simp add: emit_def)
      obtain r w2 where p: "annotate_paragraphs E tr paragraphs w1 = (r, w2)"
        by (cases "annotate_paragraphs E tr paragraphs w1")
      have "files w2 = files w1" using Cons [of w1] p by simp
      with f1 False Inr a p show ?thesis by (cases r) simp_all
    qed
  qed
qed

lemma read_pages_files: "files (snd (read_pages E pages w)) = files w"
proof (induction pages arbitrary: w)
  case Nil
  then show ?case by simp
next
  case (Cons page_data pages)
  obtain texts w' where r: "read_pages E pages (emit (ReadPage (path page_data)) w) = (texts, w')"
    by (cases "read_pages E pages (emit (ReadPage (path page_data)) w)")
  have "files w' = files w"
    using Cons [of "emit (ReadPage (path page_data)) w"] r by (simp add: emit_def)
  with r show ?case by (simp add: Let_def)
qed

lemma read_text_files:
  "files (snd (read_and_concatenate_chapter_text E pages w)) = files w"
  using read_pages_files [of E pages w]
  by (auto simp: read_and_concatenate_chapter_text_def split: prod.splits)


lemma process_chapter_skip:
  assumes "files w (path_join output_dir (chapter_key @ str ''.html'')) \<noteq> None"
  shows "process_chapter E chapter_key pages output_dir tr w = (Inr (map path pages, True), w)"
  using assms by (simp add: process_chapter_def)

lemma process_chapter_keeps:
  assumes "files w p = Some c"
  shows "files (snd (process_chapter E chapter_key pages output_dir tr w)) p = Some c"
proof (cases "files w (path_join output_dir (chapter_key @ str ''.html'')) = None")
  case False
  then show ?thesis using assms by (simp add: process_chapter_skip)
next
  case True
  with assms have ne: "p \<noteq> path_join output_dir (chapter_key @ str ''.html'')" by auto
  obtain full_text w1 where r: "read_and_concatenate_chapter_text E pages w = (full_text, w1)"
    by (cases "read_and_concatenate_chapter_text E pages w")
  have f1: "files w1 = files w" using read_text_files [of E pages w] r by simp
  obtain a w2 where an: "annotate_paragraphs E tr (segment_text_to_paragraphs full_text) w1 = (a, w2)"
    by (cases "annotate_paragraphs E tr (segment_text_to_paragraphs full_text) w1")
  have f2: "files w2 = files w"
    using annotate_paragraphs_files [of E tr "segment_text_to_paragraphs full_text" w1] an f1 by simp
  show ?thesis
    using True assms ne f1 f2
    by (simp add: process_chapter_def r an Let_def emit_def split: sum.splits write_outcome.splits)
qed

lemma chapter_paths_simps:
  "chapter_paths [] = {}"
  "chapter_paths ((k, pages) # cs) = path ` set pages \<union> chapter_paths cs"
  by (auto simp: chapter_paths_def)

lemma chapter_loop_keeps:
  "files w p = Some c \<Longrightarrow> files (snd (chapter_loop E tr chapters t w)) p = Some c"
proof (induction chapters arbitrary: t w)
  case Nil
  then show ?case by simp
next
  case (Cons ch chapters)
  obtain chapter_key pages where ch: "ch = (chapter_key, pages)" by (cases ch)
  obtain r w' where pc: "process_chapter E chapter_key pages OUTPUT_DIRECTORY tr w = (r, w')"
    by (cases "process_chapter E chapter_key pages OUTPUT_DIRECTORY tr w")
  have k: "files w' p = Some c"
    using process_chapter_keeps [OF Cons.prems, of E chapter_key pages OUTPUT_DIRECTORY tr] pc by simp
  show ?case
    using Cons.IH [OF Cons.prems] Cons.IH [OF k] k
    by (auto simp: ch pc split: sum.splits exc.splits prod.splits)
qed

lemma process_chapter_paths:
  "process_chapter E chapter_key pages output_dir tr w = (Inr (processed, skipped), w')
   \<Longrightarrow> set processed \<subseteq> path ` set pages"
  by (auto simp: process_chapter_def Let_def split: if_splits prod.splits sum.splits write_outcome.splits)

lemma chapter_loop_step:
  "\<exists>t' w'. (chapter_loop E tr ((k, pages) # chapters) t w = chapter_loop E tr chapters t' w'
             \<or> chapter_loop E tr ((k, pages) # chapters) t w = (t', w'))
           \<and> set (all_processed_source_files t')
               \<subseteq> set (all_processed_source_files t) \<union> path ` set pages"
proof -
  obtain r w' where pc: "process_chapter E k pages OUTPUT_DIRECTORY tr w = (r, w')"
    by (cases "process_chapter E k pages OUTPUT_DIRECTORY tr w")
  consider (a) "pages = []" | (b) "pages \<noteq> []" "tr = None"
    | (c) "pages \<noteq> []" "tr \<noteq> None" "r = Inl KeyboardInterrupt"
    | (d) "pages \<noteq> []" "tr \<noteq> None" "r = Inl Exception"
    | (e) processed where "pages \<noteq> []" "tr \<noteq> None" "r = Inr (processed, True)"
    | (f) processed where "pages \<noteq> []" "tr \<noteq> None" "r = Inr (processed, False)" "processed \<noteq> []"
    | (g) "pages \<noteq> []" "tr \<noteq> None" "r = Inr ([], False)"
  proof (cases r)
    case (Inl e)
    then show ?thesis using a b c d by (cases e) auto
  next
    case (Inr pr)
    then show ?thesis using a b e f g by (cases pr) (metis (full_types))
  qed
  then show ?thesis
  proof cases
    case a
    then have "chapter_loop E tr ((k, pages) # chapters) t w = chapter_loop E tr chapters t w" by simp
    then show ?thesis by blast
  next
    case b
    then have "chapter_loop E tr ((k, pages) # chapters) t w
         = chapter_loop E tr chapters (t\<lparr>chapters_error_count := chapters_error_count t + 1\<rparr>) w"
      by simp
    moreover have "set (all_processed_source_files (t\<lparr>chapters_error_count := chapters_error_count t + 1\<rparr>))
         \<subseteq> set (all_processed_source_files t) \<union> path ` set pages" by simp
    ultimately show ?thesis by blast
  next
    case c
    then have "chapter_loop E tr ((k, pages) # chapters) t w = (t, w')" by (auto simp: pc)
    then show ?thesis by blast
  next
    case d
    then have "chapter_loop E tr ((k, pages) # chapters) t w
         = chapter_loop E tr chapters (t\<lparr>chapters_error_count := chapters_error_count t + 1\<rparr>) w'"
      by (auto simp: pc)
    moreover have "set (all_processed_source_files (t\<lparr>chapters_error_count := chapters_error_count t + 1\<rparr>))
         \<subseteq> set (all_processed_source_files t) \<union> path ` set pages" by simp
    ultimately show ?thesis by blast
  next
    case e
    then have "chapter_loop E tr ((k, pages) # chapters) t w
         = chapter_loop E tr chapters (t\<lparr>chapters_skipped_count := chapters_skipped_count t + 1\<rparr>) w'"
      by (auto simp: pc)
    moreover have "set (all_processed_source_files (t\<lparr>chapters_skipped_count := chapters_skipped_count t + 1\<rparr>))
         \<subseteq> set (all_processed_source_files t) \<union> path ` set pages" by simp
    ultimately show ?thesis by blast
  next
    case f
    from process_chapter_paths pc f(3) have sub: "set processed \<subseteq> path ` set pages" by blast
    from f have "chapter_loop E tr ((k, pages) # chapters) t w
         = chapter_loop E tr chapters
             (t\<lparr>all_processed_source_files := all_processed_source_files t @ processed,
                chapters_processed_count := chapters_processed_count t + 1\<rparr>) w'"
      by (auto simp: pc)
    moreover have "set (all_processed_source_files
             (t\<lparr>all_processed_source_files := all_processed_source_files t @ processed,
                chapters_processed_count := chapters_processed_count t + 1\<rparr>))
         \<subseteq> set (all_processed_source_files t) \<union> path ` set pages" using sub by auto
    ultimately show ?thesis by blast
  next
    case g
    then have "chapter_loop E tr ((k, pages) # chapters) t w
         = chapter_loop E tr chapters (t\<lparr>chapters_error_count := chapters_error_count t + 1\<rparr>) w'"
      by (auto simp: pc)
    moreover have "set (all_processed_source_files (t\<lparr>chapters_error_count := chapters_error_count t + 1\<rparr>))
         \<subseteq> set (all_processed_source_files t) \<union> path ` set pages" by simp
    ultimately show ?thesis by blast
  qed
qed

lemma chapter_loop_paths:
  "set (all_processed_source_files (fst (chapter_loop E tr chapters t w)))
     \<subseteq> set (all_processed_source_files t) \<union> chapter_paths chapters"
proof (induction chapters arbitrary: t w)
  case Nil
  then show ?case by simp
next
  case (Cons ch chapters)
  obtain k pages where ch: "ch = (k, pages)" by (cases ch)
  from chapter_loop_step [of E tr k pages chapters t w] obtain t' w' where
    s: "chapter_loop E tr ((k, pages) # chapters) t w = chapter_loop E tr chapters t' w'
        \<or> chapter_loop E tr ((k, pages) # chapters) t w = (t', w')"
    and sub: "set (all_processed_source_files t')
               \<subseteq> set (all_processed_source_files t) \<union> path ` set pages"
    by blast
  from s show ?case
  proof
    assume "chapter_loop E tr ((k, pages) # chapters) t w = chapter_loop E tr chapters t' w'"
    with Cons.IH [of t' w'] sub show ?thesis
      unfolding ch chapter_paths_simps by auto
  next
    assume "chapter_loop E tr ((k, pages) # chapters) t w = (t', w')"
    with sub show ?thesis unfolding ch chapter_paths_simps by auto
  qed
qed

lemma delete_files_other:
  "p \<notin> set paths \<Longrightarrow> files (delete_files E paths w) p = files w p"
  by (induction paths arbitrary: w) (auto simp: emit_def)

lemma append_page_paths:
  "chapter_paths (append_page k v cs) = insert (path v) (chapter_paths cs)"
  by (induction k v cs rule: append_page.induct) (auto simp: chapter_paths_simps)

lemma collect_pages_paths:
  "chapter_paths (collect_pages U fs cs) \<subseteq> chapter_paths cs \<union> set fs"
proof (induction fs arbitrary: cs)
  case Nil
  then show ?case by simp
next
  case (Cons f fs)
  show ?case
  proof (cases "parse_filename U f")
    case None
    then show ?thesis using Cons [of cs] by auto
  next
    case (Some r)
    obtain v c n ps where r: "r = (v, c, n, ps)" by (cases r)
    show ?thesis
      using Cons [of "append_page (str ''volume'' @ v @ str ''_chapter'' @ c)
                        \<lparr>path = f, page_num = n\<rparr> cs"]
      by (auto simp: Some r append_page_paths)
  qed
qed

lemma group_paths: "chapter_paths (group_html_files U fs) \<subseteq> set fs"
proof -
  have "chapter_paths (group_html_files U fs) = chapter_paths (collect_pages U fs [])"
    by (auto simp: group_html_files_def chapter_paths_def)
  with collect_pages_paths [of U fs "[]"] show ?thesis by (simp add: chapter_paths_simps)
qed

lemma source_path_hd:
  assumes "list_all (\<lambda>n. 47 \<notin> set n) names" and "p \<in> set (glob_html SOURCE_DIRECTORY names)"
  shows "p \<noteq> [] \<and> hd p = 100"
proof -
  from assms(2) obtain n where n: "n \<in> set names" "p = path_join SOURCE_DIRECTORY n"
    by (auto simp: glob_html_def)
  with assms(1) have "47 \<notin> set n" by (simp add: list_all_iff)
  then have "\<not> (n \<noteq> [] \<and> hd n = 47)" by (cases n) auto
  then have "p = SOURCE_DIRECTORY @ [47] @ n"
    by (auto simp: n(2) path_join_def SOURCE_DIRECTORY_def str_def)
  then show ?thesis by (simp add: SOURCE_DIRECTORY_def str_def)
qed

lemma output_path_hd:
  "path_join OUTPUT_DIRECTORY (k @ str ''.html'') \<noteq> []
   \<and> hd (path_join OUTPUT_DIRECTORY (k @ str ''.html'')) \<noteq> 100"
  by (auto simp: path_join_def OUTPUT_DIRECTORY_def str_def)

lemma main_keeps:
  assumes "files w p = Some c" and "p \<notin> set (glob_html SOURCE_DIRECTORY names)"
  shows "files (snd (main E names w)) p = Some c"
proof (cases "DEEP_TRANSLATOR_AVAILABLE E")
  case False
  with assms show ?thesis by (simp add: main_def)
next
  case True
  obtain tr w1 where i: "initialize_translator E w = (tr, w1)"
    by (cases "initialize_translator E w")
  have f1: "files w1 = files w"
    using i by (auto simp: initialize_translator_def emit_def split: if_splits prod.splits)
  let ?g = "group_html_files (interp E) (glob_html SOURCE_DIRECTORY names)"
  let ?t0 = "\<lparr>all_processed_source_files = [], chapters_processed_count = 0,
               chapters_skipped_count = 0, chapters_error_count = 0\<rparr>"
  obtain t w2 where l: "chapter_loop E tr ?g ?t0 w1 = (t, w2)"
    by (cases "chapter_loop E tr ?g ?t0 w1")
  have k: "files w2 p = Some c"
    using chapter_loop_keeps [of w1 p c E tr ?g ?t0] assms(1) f1 l by simp
  have "set (all_processed_source_files t) \<subseteq> chapter_paths ?g"
    using chapter_loop_paths [of E tr ?g ?t0 w1] l by simp
  with group_paths [of "interp E" "glob_html SOURCE_DIRECTORY names"] assms(2)
  have "p \<notin> set (all_processed_source_files t)" by blast
  then have d: "files (delete_files E (all_processed_source_files t) w2) p = Some c"
    using k by (simp add: delete_files_other)
  show ?thesis
    using True assms(1) f1 k d by (simp add: main_def i l Let_def)
qed

lemma sample_glob:
  "glob_html SOURCE_DIRECTORY [str ''volume1_chapter1_1.html''] = [sample_page]"
  by (simp add: glob_html_def endswith_def path_join_def SOURCE_DIRECTORY_def str_def sample_page_def)

lemma sample_parse:
  "parse_filename sample_interpreter sample_page = Some ([49], [49], 1, [49])"
  by (simp add: parse_filename_def match_page_pattern_def digits1_def isdecimal_def decimal_def
      py_int_def int_body_def exceeds_digit_limit_def sample_interpreter_def int_strip_def
      int_space_def isspace_def basename_def ci_char_def str_def sample_page_def)

lemma sample_group:
  "group_html_files sample_interpreter [sample_page]
     = [(str ''volume1_chapter1'', [\<lparr>path = sample_page, page_num = 1\<rparr>])]"
  by (simp add: group_html_files_def sample_parse str_def)

lemma sample_output_path:
  "path_join OUTPUT_DIRECTORY (str ''volume1_chapter1'' @ str ''.html'') = sample_output"
  by (simp add: path_join_def OUTPUT_DIRECTORY_def str_def sample_output_def)

lemma sample_paths_differ: "sample_page \<noteq> sample_output"
  by (simp add: sample_page_def sample_output_def str_def)

lemma annotate_paragraphs_returns:
  assumes "\<And>s. \<exists>segs. jieba_cut E s = Inr segs"
  shows "\<exists>items w'. annotate_paragraphs E tr paragraphs w = (Inr items, w')"
proof (induction paragraphs arbitrary: w)
  case Nil
  then show ?case by simp
next
  case (Cons para paragraphs)
  show ?case
  proof (cases "strip para = []")
    case True
    then show ?thesis using Cons [of w] by simp
  next
    case False
    from assms obtain segs where c: "jieba_cut E para = Inr segs" by blast
    obtain annotations w1 where a: "annotate_segments E tr segs (emit (Tokenize para) w) = (annotations, w1)"
      by (cases "annotate_segments E tr segs (emit (Tokenize para) w)")
    from Cons [of w1] obtain items w2 where p: "annotate_paragraphs E tr paragraphs w1 = (Inr items, w2)"
      by blast
    from False c a p show ?thesis by simp
  qed
qed

lemma process_chapter_writes:
  assumes out: "files w (path_join output_dir (chapter_key @ str ''.html'')) = None"
    and nonblank: "strip (fst (read_and_concatenate_chapter_text E pages w)) \<noteq> []"
    and cut: "\<And>s. \<exists>segs. jieba_cut E s = Inr segs"
    and wr: "\<And>p c. open_write E p c = Written"
  shows "fst (process_chapter E chapter_key pages output_dir tr w) = Inr (map path pages, False)
       \<and> files (snd (process_chapter E chapter_key pages output_dir tr w))
            (path_join output_dir (chapter_key @ str ''.html'')) \<noteq> None"
proof -
  obtain full_text w1 where r: "read_and_concatenate_chapter_text E pages w = (full_text, w1)"
    by (cases "read_and_concatenate_chapter_text E pages w")
  from annotate_paragraphs_returns [OF cut, of tr "segment_text_to_paragraphs full_text" w1]
  obtain items w2 where an: "annotate_paragraphs E tr (segment_text_to_paragraphs full_text) w1 = (Inr items, w2)"
    by blast
  show ?thesis
    using out nonblank by (simp add: process_chapter_def r an wr Let_def)
qed

text \<open>
  C5.  When the output file of a chapter exists, \<open>process_chapter\<close> returns the page
  paths with \<open>skipped = True\<close> and leaves the world as it found it: no page is read,
  nothing is tokenized, transcribed or translated, nothing is written; and the batch
  loop counts the chapter as skipped.  A run never changes a file that exists outside
  the source directory, so a second run, whatever its directory listing (names
  without a slash) and collaborators, leaves every output of the first run as it is.
\<close>

theorem existing_output_is_skipped:
  "(files w (path_join output_dir (chapter_key @ str ''.html'')) \<noteq> None \<longrightarrow>
      process_chapter E chapter_key page_files_data output_dir online_translator_obj w
        = (Inr (map path page_files_data, True), w))
   \<and> (files w (path_join OUTPUT_DIRECTORY (chapter_key @ str ''.html'')) \<noteq> None
        \<and> page_files_data \<noteq> [] \<and> online_translator_obj \<noteq> None \<longrightarrow>
      chapter_loop E online_translator_obj ((chapter_key, page_files_data) # rest) t w
        = chapter_loop E online_translator_obj rest
            (t\<lparr>chapters_skipped_count := chapters_skipped_count t + 1\<rparr>) w)
   \<and> (list_all (\<lambda>n. 47 \<notin> set n) names'
        \<and> files (snd (main E names w)) (path_join OUTPUT_DIRECTORY (k @ str ''.html'')) = Some c \<longrightarrow>
      files (snd (main E' names' (snd (main E names w))))
        (path_join OUTPUT_DIRECTORY (k @ str ''.html'')) = Some c)"
proof -
  have a: "process_chapter E chapter_key page_files_data output_dir online_translator_obj w
        = (Inr (map path page_files_data, True), w)"
    if "files w (path_join output_dir (chapter_key @ str ''.html'')) \<noteq> None"
    using that by (rule process_chapter_skip)
  have b: "chapter_loop E online_translator_obj ((chapter_key, page_files_data) # rest) t w
        = chapter_loop E online_translator_obj rest
            (t\<lparr>chapters_skipped_count := chapters_skipped_count t + 1\<rparr>) w"
    if "files w (path_join OUTPUT_DIRECTORY (chapter_key @ str ''.html'')) \<noteq> None"
      "page_files_data \<noteq> []" "online_translator_obj \<noteq> None"
    using that by (auto simp: process_chapter_skip)
  have c: "files (snd (main E' names' (snd (main E names w))))
        (path_join OUTPUT_DIRECTORY (k @ str ''.html'')) = Some c"
    if h: "list_all (\<lambda>n. 47 \<notin> set n) names'"
      "files (snd (main E names w)) (path_join OUTPUT_DIRECTORY (k @ str ''.html'')) = Some c"
  proof -
    have "path_join OUTPUT_DIRECTORY (k @ str ''.html'') \<notin> set (glob_html SOURCE_DIRECTORY names')"
      using source_path_hd [OF h(1)] output_path_hd [of k] by blast
    with h(2) show ?thesis by (rule main_keeps)
  qed
  from a b c show ?thesis by blast
qed

lemma rerun_files:
  "files rerun_world sample_output = Some (str ''old'')"
  "files rerun_world sample_page = Some [20320, 22909]"
  using sample_paths_differ by (simp_all add: rerun_world_def)

text \<open>The chapter whose output holds \<open>old\<close>: skipped, and still \<open>old\<close> after two
  runs.\<close>

theorem existing_output_is_skipped_witness:
  "process_chapter sample_env (str ''volume1_chapter1'') [\<lparr>path = sample_page, page_num = 1\<rparr>]
       OUTPUT_DIRECTORY (Some GoogleTranslator) rerun_world
     = (Inr ([sample_page], True), rerun_world)
   \<and> files (snd (main sample_env [str ''volume1_chapter1_1.html'']
                 (snd (main sample_env [str ''volume1_chapter1_1.html''] rerun_world))))
        sample_output = Some (str ''old'')"
proof -
  have n: "list_all (\<lambda>n. 47 \<notin> set n) [str ''volume1_chapter1_1.html'']"
    by (simp add: str_def)
  have o: "sample_output \<notin> set (glob_html SOURCE_DIRECTORY [str ''volume1_chapter1_1.html''])"
    using sample_paths_differ by (simp add: sample_glob)
  have first: "files (snd (main sample_env [str ''volume1_chapter1_1.html''] rerun_world))
        (path_join OUTPUT_DIRECTORY (str ''volume1_chapter1'' @ str ''.html'')) = Some (str ''old'')"
    unfolding sample_output_path using rerun_files(1) o by (rule main_keeps)
  have e: "files rerun_world (path_join OUTPUT_DIRECTORY (str ''volume1_chapter1'' @ str ''.html'')) \<noteq> None"
    by (simp add: sample_output_path rerun_files)
  note A = existing_output_is_skipped [THEN conjunct1, THEN mp, OF e]
  note C = existing_output_is_skipped [THEN conjunct2, THEN conjunct2, THEN mp, OF conjI, OF n first]
  from A [of sample_env "[\<lparr>path = sample_page, page_num = 1\<rparr>]" "Some GoogleTranslator"]
    C [of sample_env]
  show ?thesis by (simp add: sample_output_path)
qed

section \<open>Two runs of the sample chapter\<close>

lemma sample_init:
  "initialize_translator sample_env w
     = (Some GoogleTranslator, emit (Translate [20320, 22909]) (w\<lparr>provider := Suc (provider w)\<rparr>))"
  by (simp add: initialize_translator_def sample_env_def)

lemma sample_env_fields:
  "DEEP_TRANSLATOR_AVAILABLE sample_env" "interp sample_env = sample_interpreter"
  by (simp_all add: sample_env_def)

text \<open>
  C1, on the code.  Cleanup is enabled, the chapter's output exists, and the run
  reports the chapter as skipped; \<open>process_chapter\<close> hands back the page paths, but
  the \<open>skipped\<close> branch of the loop (line 346) does not add them to
  \<open>all_processed_source_files\<close>, so the page file is still there after the run.
\<close>

theorem skipped_sources_stay:
  "DELETE_SOURCE_FILES_AFTER_PROCESSING
   \<and> files rerun_world sample_output \<noteq> None
   \<and> fst (main sample_env [str ''volume1_chapter1_1.html''] rerun_world)
       = Summary \<lparr>all_processed_source_files = [], chapters_processed_count = 0,
                  chapters_skipped_count = 1, chapters_error_count = 0\<rparr>
   \<and> files (snd (main sample_env [str ''volume1_chapter1_1.html''] rerun_world)) sample_page
       = Some [20320, 22909]"
proof -
  define w1 where "w1 = emit (Translate [20320, 22909]) (rerun_world\<lparr>provider := Suc (provider rerun_world)\<rparr>)"
  have f1: "files w1 = files rerun_world" by (simp add: w1_def emit_def)
  have e: "files w1 (path_join OUTPUT_DIRECTORY (str ''volume1_chapter1'' @ str ''.html'')) \<noteq> None"
    by (simp add: sample_output_path f1 rerun_files)
  have pcs: "process_chapter sample_env (str ''volume1_chapter1'')
               [\<lparr>path = sample_page, page_num = 1\<rparr>] OUTPUT_DIRECTORY (Some GoogleTranslator) w1
             = (Inr ([sample_page], True), w1)"
    using process_chapter_skip [OF e, of sample_env "[\<lparr>path = sample_page, page_num = 1\<rparr>]"
        "Some GoogleTranslator"] by simp
  have l: "chapter_loop sample_env (Some GoogleTranslator)
             [(str ''volume1_chapter1'', [\<lparr>path = sample_page, page_num = 1\<rparr>])]
             \<lparr>all_processed_source_files = [], chapters_processed_count = 0,
              chapters_skipped_count = 0, chapters_error_count = 0\<rparr> w1
           = (\<lparr>all_processed_source_files = [], chapters_processed_count = 0,
               chapters_skipped_count = 1, chapters_error_count = 0\<rparr>, w1)"
    by (simp add: pcs)
  have m: "main sample_env [str ''volume1_chapter1_1.html''] rerun_world
           = (Summary \<lparr>all_processed_source_files = [], chapters_processed_count = 0,
                        chapters_skipped_count = 1, chapters_error_count = 0\<rparr>, w1)"
    by (simp add: main_def sample_env_fields sample_init sample_glob sample_group
          w1_def [symmetric] l del: chapter_loop.simps)
  show ?thesis
    by (simp add: m f1 rerun_files DELETE_SOURCE_FILES_AFTER_PROCESSING_def)
qed

lemma sample_read:
  assumes "files w sample_page = Some [20320, 22909]"
  shows "fst (read_and_concatenate_chapter_text sample_env [\<lparr>path = sample_page, page_num = 1\<rparr>] w)
           = [20320, 22909]"
  using assms
  by (simp add: read_and_concatenate_chapter_text_def sample_env_def split: prod.splits)

text \<open>
  C2, on the code.  The translator object is constructed, the test call of line 320
  raises, and the \<open>except\<close> branch logs that initialization failed; but the object was
  bound on line 318, so the guard of line 337 does not hold, the chapter is processed
  and its output is written.
\<close>

theorem failed_test_call_still_processes:
  "translator_constructs sample_env
   \<and> fst (translate sample_env (provider fresh_world) [20320, 22909])
       = Raised (str ''HTTP Error 429: Too Many Requests'')
   \<and> files fresh_world sample_output = None
   \<and> fst (main sample_env [str ''volume1_chapter1_1.html''] fresh_world)
       = Summary \<lparr>all_processed_source_files = [sample_page], chapters_processed_count = 1,
                  chapters_skipped_count = 0, chapters_error_count = 0\<rparr>
   \<and> files (snd (main sample_env [str ''volume1_chapter1_1.html''] fresh_world)) sample_output
       \<noteq> None"
proof -
  define w1 where "w1 = emit (Translate [20320, 22909]) (fresh_world\<lparr>provider := Suc (provider fresh_world)\<rparr>)"
  have f0: "files fresh_world sample_output = None" "files fresh_world sample_page = Some [20320, 22909]"
    using sample_paths_differ by (auto simp: fresh_world_def)
  have f1: "files w1 = files fresh_world" by (simp add: w1_def emit_def)
  have out: "files w1 (path_join OUTPUT_DIRECTORY (str ''volume1_chapter1'' @ str ''.html'')) = None"
    by (simp add: sample_output_path f1 f0)
  have nonblank: "strip (fst (read_and_concatenate_chapter_text sample_env
                     [\<lparr>path = sample_page, page_num = 1\<rparr>] w1)) \<noteq> []"
    by (simp add: sample_read f1 f0 strip_def isspace_def)
  have cut: "\<And>s. \<exists>segs. jieba_cut sample_env s = Inr segs" by (simp add: sample_env_def)
  have wr: "\<And>p c. open_write sample_env p c = Written" by (simp add: sample_env_def)
  obtain r w2 where pc: "process_chapter sample_env (str ''volume1_chapter1'')
        [\<lparr>path = sample_page, page_num = 1\<rparr>] OUTPUT_DIRECTORY (Some GoogleTranslator) w1 = (r, w2)"
    by (cases "process_chapter sample_env (str ''volume1_chapter1'')
        [\<lparr>path = sample_page, page_num = 1\<rparr>] OUTPUT_DIRECTORY (Some GoogleTranslator) w1")
  from process_chapter_writes [OF out nonblank cut wr, of "Some GoogleTranslator"] pc
  have r: "r = Inr ([sample_page], False)" and o2: "files w2 sample_output \<noteq> None"
    by (simp_all add: sample_output_path)
  have l: "chapter_loop sample_env (Some GoogleTranslator)
             [(str ''volume1_chapter1'', [\<lparr>path = sample_page, page_num = 1\<rparr>])]
             \<lparr>all_processed_source_files = [], chapters_processed_count = 0,
              chapters_skipped_count = 0, chapters_error_count = 0\<rparr> w1
           = (\<lparr>all_processed_source_files = [sample_page], chapters_processed_count = 1,
               chapters_skipped_count = 0, chapters_error_count = 0\<rparr>, w2)"
    by (simp add: pc r)
  have m: "main sample_env [str ''volume1_chapter1_1.html''] fresh_world
           = (Summary \<lparr>all_processed_source_files = [sample_page], chapters_processed_count = 1,
                        chapters_skipped_count = 0, chapters_error_count = 0\<rparr>,
              delete_files sample_env [sample_page] w2)"
    by (simp add: main_def sample_env_fields sample_init sample_glob sample_group
          w1_def [symmetric] l DELETE_SOURCE_FILES_AFTER_PROCESSING_def del: chapter_loop.simps)
  have d: "files (delete_files sample_env [sample_page] w2) sample_output = files w2 sample_output"
    using sample_paths_differ by (intro delete_files_other) simp
  have t: "translator_constructs sample_env
     \<and> fst (translate sample_env (provider fresh_world) [20320, 22909])
         = Raised (str ''HTTP Error 429: Too Many Requests'')"
    by (simp add: sample_env_def)
  show ?thesis using t f0(1) o2 by (simp add: m d del: delete_files.simps)
qed

end
